theory Spec2Isabelle
  imports Main "HOL-Library.FSet"
begin

section \<open>The objects of a function graph\<close>

text \<open>
  Shallow embedding of \<^verbatim>\<open>aesara/graph/fg.py\<close> (class \<^verbatim>\<open>FunctionGraph\<close>).
  Python objects are compared by identity, so a Variable, an Apply node and a
  Feature are each a handle (a natural number); what a handle denotes is looked
  up in a table.  Variables and features are never written by the container, so
  their tables are part of the environment; Apply nodes have their \<^verbatim>\<open>inputs\<close>
  and their \<^verbatim>\<open>tag\<close> written, so their table is part of the state.
\<close>

type_synonym var = nat
type_synonym node = nat
type_synonym fid = nat
type_synonym reason = "string option"

datatype exn =
    ValueError | TypeError | KeyError | IndexError | AssertionError | AttributeError
  | MissingInputError | InconsistencyError | AlreadyThere | Exception | OtherError string

text \<open>
  A type is opaque apart from its equality test and from being the null type
  (\<^verbatim>\<open>isinstance(var.type, NullType)\<close>).
\<close>

datatype ty = NullType | Type nat

record Variable =
  vtype :: ty
  owner :: "node option"
  is_Constant :: bool

text \<open>
  \<^verbatim>\<open>op.view_map\<close> and \<^verbatim>\<open>op.destroy_map\<close>: a dict from output index to a value
  that should be a list or tuple of input indices; \<open>None\<close> stands for a value that
  is neither.
\<close>

type_synonym opmap = "(nat \<times> nat list option) list"

record Apply =
  view_map :: opmap
  destroy_map :: opmap
  node_inputs :: "var list"
  node_outputs :: "var list"
  imported_by :: "string list"
  removed_by :: "string list"

text \<open>A client is the string \<^verbatim>\<open>"output"\<close> or an Apply node, paired with an index.\<close>

datatype client = Output | Node node

type_synonym edge = "client \<times> nat"

text \<open>
  A feature has any subset of the hooks.  \<open>None\<close> is a missing attribute; a
  present hook returns (\<open>None\<close>) or raises (\<open>Some e\<close>).  Hooks observe; they do not
  write the graph.
\<close>

record Feature =
  on_attach :: "exn option option"
  on_detach :: "exn option option"
  on_import :: "(node \<Rightarrow> reason \<Rightarrow> exn option) option"
  on_prune :: "(node \<Rightarrow> reason \<Rightarrow> exn option) option"
  on_change_input :: "(client \<Rightarrow> nat \<Rightarrow> var \<Rightarrow> var \<Rightarrow> reason \<Rightarrow> exn option) option"

text \<open>Every call of a hook is recorded, in order.\<close>

datatype event =
    OnAttach fid
  | OnDetach fid
  | OnImport fid node reason
  | OnPrune fid node reason
  | OnChangeInput fid client nat var var reason

text \<open>
  What \<^verbatim>\<open>get_test_value\<close> returns: the \<^verbatim>\<open>shape\<close> attribute of the test value, if
  it has one.
\<close>

type_synonym test_value = "nat list option"

text \<open>
  The environment: the tables of the immutable objects, and the collaborators of
  \<^verbatim>\<open>fg.py\<close> that live in other modules and are taken as parameters:
  \<^verbatim>\<open>io_toposort\<close>, \<^verbatim>\<open>graph_inputs\<close> and \<^verbatim>\<open>clone_get_equiv\<close> (aesara.graph.basic),
  \<^verbatim>\<open>Type.filter_variable\<close>, \<^verbatim>\<open>get_test_value\<close> (\<open>None\<close> when it raises
  \<^verbatim>\<open>TestValueError\<close>), the flag \<^verbatim>\<open>config.compute_test_value\<close>, and the instance
  that \<^verbatim>\<open>ReplaceValidate()\<close> creates.
\<close>

record env =
  var_obj :: "var \<Rightarrow> Variable"
  feature_obj :: "fid \<Rightarrow> Feature"
  io_toposort :: "(node \<Rightarrow> Apply) \<Rightarrow> var fset \<Rightarrow> var list \<Rightarrow> exn + node list"
  graph_inputs :: "(node \<Rightarrow> Apply) \<Rightarrow> var list \<Rightarrow> var list"
  clone_get_equiv :: "(node \<Rightarrow> Apply) \<Rightarrow> var list \<Rightarrow> var list \<Rightarrow> (node \<Rightarrow> Apply) \<times> (var \<Rightarrow> var)"
  filter_variable :: "ty \<Rightarrow> var \<Rightarrow> exn + var"
  compute_test_value :: string
  get_test_value :: "var \<Rightarrow> test_value option"
  ReplaceValidate :: fid

text \<open>
  The state of a \<^verbatim>\<open>FunctionGraph\<close>.  \<open>features\<close> is \<^verbatim>\<open>self._features\<close>.  Of
  \<^verbatim>\<open>execute_callbacks_times\<close> only the keys are kept (the values are wall-clock
  durations).  \<open>log\<close> records the hook calls and \<open>warnings\<close> the calls of
  \<^verbatim>\<open>warnings.warn\<close>.  The inert fields \<^verbatim>\<open>profile\<close>, \<^verbatim>\<open>update_mapping\<close> and
  \<^verbatim>\<open>execute_callbacks_time\<close> are left out.
\<close>

record fgraph =
  nodes :: "node \<Rightarrow> Apply"
  inputs :: "var list"
  outputs :: "var list"
  variables :: "var fset"
  apply_nodes :: "node fset"
  clients :: "var \<rightharpoonup> edge list"
  features :: "fid list"
  execute_callbacks_times :: "fid fset"
  log :: "event list"
  warnings :: "var list"

text \<open>
  An operation returns normally with the new state, or raises with the state as
  it is at the raise.
\<close>

datatype result = Ok fgraph | Raise exn fgraph

fun state_of :: "result \<Rightarrow> fgraph" where
  "state_of (Ok s) = s"
| "state_of (Raise e s) = s"

fun and_then :: "result \<Rightarrow> (fgraph \<Rightarrow> result) \<Rightarrow> result" where
  "and_then (Ok s) f = f s"
| "and_then (Raise e s) f = Raise e s"

definition str :: "reason \<Rightarrow> string" where
  "str r = (case r of None \<Rightarrow> ''None'' | Some x \<Rightarrow> x)"

section \<open>Features and callbacks\<close>

definition attached :: "fid \<Rightarrow> fgraph \<Rightarrow> fgraph" where
  "attached f s =
     s\<lparr>execute_callbacks_times := finsert f (execute_callbacks_times s),
       features := features s @ [f]\<rparr>"

definition attach_feature :: "env \<Rightarrow> fid \<Rightarrow> fgraph \<Rightarrow> result" where
  "attach_feature E f s =
     (if f \<in> set (features s) then Ok s
      else case on_attach (feature_obj E f) of
             None \<Rightarrow> Ok (attached f s)
           | Some outcome \<Rightarrow>
               let s1 = s\<lparr>log := log s @ [OnAttach f]\<rparr>
               in (case outcome of
                     Some e \<Rightarrow> if e = AlreadyThere then Ok s1 else Raise e s1
                   | None \<Rightarrow> Ok (attached f s1)))"

definition remove_feature :: "env \<Rightarrow> fid \<Rightarrow> fgraph \<Rightarrow> result" where
  "remove_feature E f s =
     (if f \<notin> set (features s) then Ok s
      else let s1 = s\<lparr>features := remove1 f (features s)\<rparr>
           in case on_detach (feature_obj E f) of
                None \<Rightarrow> Ok s1
              | Some outcome \<Rightarrow>
                  let s2 = s1\<lparr>log := log s1 @ [OnDetach f]\<rparr>
                  in (case outcome of Some e \<Rightarrow> Raise e s2 | None \<Rightarrow> Ok s2))"

text \<open>
  \<^verbatim>\<open>execute_callbacks(name, *args)\<close>: the name and the arguments are one value.
\<close>

datatype callback =
    CB_import node reason
  | CB_prune node reason
  | CB_change_input client nat var var reason

fun hook :: "Feature \<Rightarrow> callback \<Rightarrow> exn option option" where
  "hook F (CB_import n r) = map_option (\<lambda>h. h n r) (on_import F)"
| "hook F (CB_prune n r) = map_option (\<lambda>h. h n r) (on_prune F)"
| "hook F (CB_change_input c i old new r) = map_option (\<lambda>h. h c i old new r) (on_change_input F)"

fun event_of :: "fid \<Rightarrow> callback \<Rightarrow> event" where
  "event_of f (CB_import n r) = OnImport f n r"
| "event_of f (CB_prune n r) = OnPrune f n r"
| "event_of f (CB_change_input c i old new r) = OnChangeInput f c i old new r"

fun run_callbacks :: "env \<Rightarrow> callback \<Rightarrow> fid list \<Rightarrow> fgraph \<Rightarrow> result" where
  "run_callbacks E cb [] s = Ok s"
| "run_callbacks E cb (f # fs) s =
     (case hook (feature_obj E f) cb of
        None \<Rightarrow> run_callbacks E cb fs s
      | Some outcome \<Rightarrow>
          let s1 = s\<lparr>log := log s @ [event_of f cb]\<rparr>
          in (case outcome of
                Some e \<Rightarrow> Raise e s1
              | None \<Rightarrow>
                  if f |\<in>| execute_callbacks_times s1 then run_callbacks E cb fs s1
                  else Raise KeyError s1))"

definition execute_callbacks :: "env \<Rightarrow> callback \<Rightarrow> fgraph \<Rightarrow> result" where
  "execute_callbacks E cb s = run_callbacks E cb (features s) s"

section \<open>Inputs, variables and clients\<close>

definition setup_var :: "var \<Rightarrow> fgraph \<Rightarrow> fgraph" where
  "setup_var v s =
     (case clients s v of None \<Rightarrow> s\<lparr>clients := (clients s)(v \<mapsto> [])\<rparr> | Some cl \<Rightarrow> s)"

text \<open>The pair \<^verbatim>\<open>self.setup_var(v); self.variables.add(v)\<close>.\<close>

definition track_var :: "var \<Rightarrow> fgraph \<Rightarrow> fgraph" where
  "track_var v s = (let s1 = setup_var v s in s1\<lparr>variables := finsert v (variables s1)\<rparr>)"

definition add_input :: "var \<Rightarrow> bool \<Rightarrow> fgraph \<Rightarrow> fgraph" where
  "add_input v check s =
     (if check \<and> v \<in> set (inputs s) then s
      else track_var v (s\<lparr>inputs := inputs s @ [v]\<rparr>))"

definition bad_map :: "opmap \<Rightarrow> bool" where
  "bad_map m = (m \<noteq> [] \<and> \<not> list_all (\<lambda>(k, view). view \<noteq> None) m)"

definition setup_node :: "node \<Rightarrow> fgraph \<Rightarrow> result" where
  "setup_node n s =
     (if bad_map (view_map (nodes s n)) then Raise Exception s
      else if bad_map (destroy_map (nodes s n)) then Raise Exception s
      else Ok s)"

definition get_clients :: "var \<Rightarrow> fgraph \<Rightarrow> exn + edge list" where
  "get_clients v s = (case clients s v of None \<Rightarrow> Inl KeyError | Some cl \<Rightarrow> Inr cl)"

definition add_client :: "var \<Rightarrow> edge \<Rightarrow> fgraph \<Rightarrow> result" where
  "add_client v new_client s =
     (case clients s v of
        None \<Rightarrow> Raise KeyError s
      | Some cl \<Rightarrow> Ok (s\<lparr>clients := (clients s)(v \<mapsto> cl @ [new_client])\<rparr>))"

section \<open>Pruning\<close>

text \<open>
  \<^verbatim>\<open>any(output for output in apply_node.outputs if self.clients[output])\<close>:
  the outputs are read in order up to the first one that has a client; reading
  the clients of an untracked output raises \<^verbatim>\<open>KeyError\<close>.
\<close>

fun any_client :: "fgraph \<Rightarrow> var list \<Rightarrow> exn + bool" where
  "any_client s [] = Inr False"
| "any_client s (output # rest) =
     (case clients s output of
        None \<Rightarrow> Inl KeyError
      | Some cl \<Rightarrow> if cl \<noteq> [] then Inr True else any_client s rest)"

text \<open>
  One turn of the \<^verbatim>\<open>while removal_stack\<close> loop of \<^verbatim>\<open>remove_client\<close>, in three
  parts.  Each returns the entries it pushes (in the order of the \<^verbatim>\<open>append\<close>
  calls) and the new state, or the exception with the state at the raise.
\<close>

type_synonym turn = "(exn \<times> fgraph) + ((var \<times> edge) list \<times> fgraph)"

text \<open>The body of \<^verbatim>\<open>if not any(...)\<close>: the Apply node is removed.\<close>

definition prune_node :: "env \<Rightarrow> reason \<Rightarrow> node \<Rightarrow> fgraph \<Rightarrow> turn" where
  "prune_node E reason apply_node s =
     (let a = nodes s apply_node;
          s2 = s\<lparr>nodes := (nodes s)
                  (apply_node := a\<lparr>removed_by := removed_by a @ [str reason]\<rparr>)\<rparr>
      in if apply_node |\<notin>| apply_nodes s2 then Inl (KeyError, s2)
         else (case execute_callbacks E (CB_prune apply_node reason)
                      (s2\<lparr>apply_nodes := apply_nodes s2 |-| {|apply_node|},
                          variables := variables s2 |-| fset_of_list (node_outputs a)\<rparr>) of
                 Raise e s4 \<Rightarrow> Inl (e, s4)
               | Ok s4 \<Rightarrow>
                   Inr (map (\<lambda>(i, in_var). (in_var, (Node apply_node, i)))
                          (enumerate 0 (node_inputs a)), s4)))"

text \<open>From \<^verbatim>\<open>if not var.owner:\<close> on: the variable is taken to have no client.\<close>

definition remove_unused :: "env \<Rightarrow> reason \<Rightarrow> var \<Rightarrow> fgraph \<Rightarrow> turn" where
  "remove_unused E reason v s =
     (case owner (var_obj E v) of
        None \<Rightarrow>
          if v |\<in>| variables s then Inr ([], s\<lparr>variables := variables s |-| {|v|}\<rparr>)
          else Inl (KeyError, s)
      | Some apply_node \<Rightarrow>
          (case any_client s (node_outputs (nodes s apply_node)) of
             Inl e \<Rightarrow> Inl (e, s)
           | Inr True \<Rightarrow> Inr ([], s)
           | Inr False \<Rightarrow> prune_node E reason apply_node s))"

text \<open>
  The turn for the popped pair.  After the \<^verbatim>\<open>except ValueError\<close> branch
  \<^verbatim>\<open>var_clients\<close> is \<^verbatim>\<open>None\<close>, which \<^verbatim>\<open>if var_clients: continue\<close> takes like the
  empty list.
\<close>

definition remove_client_step :: "env \<Rightarrow> reason \<Rightarrow> var \<Rightarrow> edge \<Rightarrow> fgraph \<Rightarrow> turn" where
  "remove_client_step E reason v client_to_remove s =
     (case clients s v of
        None \<Rightarrow> Inl (KeyError, s)
      | Some cl \<Rightarrow>
          if client_to_remove \<in> set cl
          then (let var_clients = remove1 client_to_remove cl;
                    s1 = s\<lparr>clients := (clients s)(v \<mapsto> var_clients)\<rparr>
                in if var_clients \<noteq> [] then Inr ([], s1) else remove_unused E reason v s1)
          else remove_unused E reason v s)"

lemma run_callbacks_apply_nodes:
  "apply_nodes (state_of (run_callbacks E cb fs s)) = apply_nodes s"
  by (induction fs arbitrary: s) (auto split: option.splits simp: Let_def)

lemma execute_callbacks_apply_nodes:
  "execute_callbacks E cb s = Ok s' \<Longrightarrow> apply_nodes s' = apply_nodes s"
  using run_callbacks_apply_nodes [of E cb "features s" s]
  by (simp add: execute_callbacks_def)

lemma prune_node_decreases:
  assumes "prune_node E reason p s = Inr (pushed, s')"
  shows "fcard (apply_nodes s') < fcard (apply_nodes s)"
proof -
  have mem: "p |\<in>| apply_nodes s"
    using assms by (simp add: prune_node_def Let_def split: if_splits)
  have "apply_nodes s' = apply_nodes s |-| {|p|}"
    using assms mem
    by (simp add: prune_node_def Let_def split: result.splits)
       (use execute_callbacks_apply_nodes in fastforce)
  then show ?thesis using mem by (metis fcard_fminus1_less)
qed

lemma remove_unused_decreases:
  assumes "remove_unused E reason v s = Inr (pushed, s')"
  shows "(pushed = [] \<and> apply_nodes s' = apply_nodes s)
         \<or> fcard (apply_nodes s') < fcard (apply_nodes s)"
proof (cases "owner (var_obj E v)")
  case None
  then show ?thesis using assms by (auto simp: remove_unused_def split: if_splits)
next
  case (Some p)
  then show ?thesis using assms prune_node_decreases [of E reason p s pushed s']
    by (auto simp: remove_unused_def split: sum.splits bool.splits)
qed

lemma remove_client_step_decreases:
  assumes "remove_client_step E reason v c s = Inr (pushed, s')"
  shows "(pushed = [] \<and> apply_nodes s' = apply_nodes s)
         \<or> fcard (apply_nodes s') < fcard (apply_nodes s)"
proof -
  obtain cl where cl: "clients s v = Some cl"
    using assms by (cases "clients s v") (auto simp: remove_client_step_def)
  show ?thesis
  proof (cases "c \<in> set cl")
    case False
    then show ?thesis using assms cl remove_unused_decreases [of E reason v s pushed s']
      by (simp add: remove_client_step_def)
  next
    case True
    show ?thesis
    proof (cases "remove1 c cl = []")
      case False
      then show ?thesis using assms cl True by (auto simp: remove_client_step_def Let_def)
    next
      case e: True
      then show ?thesis
        using assms cl True
          remove_unused_decreases [of E reason v "s\<lparr>clients := (clients s)(v \<mapsto> [])\<rparr>" pushed s']
        by (simp add: remove_client_step_def Let_def)
    qed
  qed
qed

text \<open>
  The loop.  The top of the removal stack is the last element of the Python
  list; here the stack is held with its top first, so the entries pushed in one
  turn are put in front in reverse.
\<close>

function remove_client_loop :: "env \<Rightarrow> reason \<Rightarrow> (var \<times> edge) list \<Rightarrow> fgraph \<Rightarrow> result" where
  "remove_client_loop E reason [] s = Ok s"
| "remove_client_loop E reason ((v, c) # removal_stack) s =
     (case remove_client_step E reason v c s of
        Inl (e, s') \<Rightarrow> Raise e s'
      | Inr (pushed, s') \<Rightarrow> remove_client_loop E reason (rev pushed @ removal_stack) s')"
  by pat_completeness auto
termination
proof (relation "measures [\<lambda>(E, reason, stack, s). fcard (apply_nodes s),
                           \<lambda>(E, reason, stack, s). length stack]", goal_cases)
  case 1
  show ?case by simp
next
  case (2 E reason v c removal_stack s x pushed s')
  then show ?case
    using remove_client_step_decreases [of E reason v c s pushed s'] by auto
qed

definition remove_client :: "env \<Rightarrow> var \<Rightarrow> edge \<Rightarrow> reason \<Rightarrow> fgraph \<Rightarrow> result" where
  "remove_client E v client_to_remove reason s =
     remove_client_loop E reason [(v, client_to_remove)] s"

section \<open>Import\<close>

definition missing_input :: "env \<Rightarrow> var \<Rightarrow> fgraph \<Rightarrow> bool" where
  "missing_input E v s =
     (owner (var_obj E v) = None \<and> \<not> is_Constant (var_obj E v) \<and> v \<notin> set (inputs s))"

text \<open>The \<^verbatim>\<open>if check:\<close> loops of \<^verbatim>\<open>import_node\<close>.\<close>

fun check_inputs :: "env \<Rightarrow> bool \<Rightarrow> var list \<Rightarrow> fgraph \<Rightarrow> result" where
  "check_inputs E import_missing [] s = Ok s"
| "check_inputs E import_missing (v # vs) s =
     (if missing_input E v s
      then (if import_missing then check_inputs E import_missing vs (add_input v True s)
            else Raise MissingInputError s)
      else check_inputs E import_missing vs s)"

fun check_new_nodes :: "env \<Rightarrow> bool \<Rightarrow> node list \<Rightarrow> fgraph \<Rightarrow> result" where
  "check_new_nodes E import_missing [] s = Ok s"
| "check_new_nodes E import_missing (n # ns) s =
     and_then (check_inputs E import_missing (node_inputs (nodes s n)) s)
       (check_new_nodes E import_missing ns)"

text \<open>\<^verbatim>\<open>for i, input in enumerate(node.inputs)\<close>, from index \<open>i\<close> on.\<close>

fun add_input_clients :: "node \<Rightarrow> nat \<Rightarrow> var list \<Rightarrow> fgraph \<Rightarrow> result" where
  "add_input_clients n i [] s = Ok s"
| "add_input_clients n i (input # rest) s =
     and_then
       (add_client input (Node n, i) (if input |\<notin>| variables s then track_var input s else s))
       (add_input_clients n (Suc i) rest)"

text \<open>The second \<^verbatim>\<open>for node in new_nodes\<close> loop of \<^verbatim>\<open>import_node\<close>.\<close>

fun import_new_nodes :: "env \<Rightarrow> reason \<Rightarrow> node list \<Rightarrow> fgraph \<Rightarrow> result" where
  "import_new_nodes E reason [] s = Ok s"
| "import_new_nodes E reason (n # ns) s =
     (if n |\<in>| apply_nodes s then Raise AssertionError s
      else and_then (setup_node n s) (\<lambda>s.
        let a = nodes s n;
            s1 = s\<lparr>apply_nodes := finsert n (apply_nodes s),
                   nodes := (nodes s)(n := a\<lparr>imported_by := imported_by a @ [str reason]\<rparr>)\<rparr>;
            s2 = fold track_var (node_outputs a) s1
        in and_then (add_input_clients n 0 (node_inputs a) s2) (\<lambda>s3.
           and_then (execute_callbacks E (CB_import n reason) s3)
             (import_new_nodes E reason ns))))"

definition import_node :: "env \<Rightarrow> node \<Rightarrow> bool \<Rightarrow> reason \<Rightarrow> bool \<Rightarrow> fgraph \<Rightarrow> result" where
  "import_node E apply_node check reason import_missing s =
     (case io_toposort E (nodes s) (variables s) (node_outputs (nodes s apply_node)) of
        Inl e \<Rightarrow> Raise e s
      | Inr new_nodes \<Rightarrow>
          and_then (if check then check_new_nodes E import_missing new_nodes s else Ok s)
            (import_new_nodes E reason new_nodes))"

definition import_var :: "env \<Rightarrow> var \<Rightarrow> reason \<Rightarrow> bool \<Rightarrow> fgraph \<Rightarrow> result" where
  "import_var E v reason import_missing s =
     and_then
       (case owner (var_obj E v) of
          Some n \<Rightarrow>
            if n |\<notin>| apply_nodes s then import_node E n True reason import_missing s else Ok s
        | None \<Rightarrow>
            if \<not> is_Constant (var_obj E v) \<and> v \<notin> set (inputs s)
            then (if vtype (var_obj E v) = NullType then Raise TypeError s
                  else if import_missing then Ok (add_input v True s)
                  else Raise MissingInputError s)
            else Ok s)
       (\<lambda>s. Ok (track_var v s))"

section \<open>Changing an input and replacing a variable\<close>

text \<open>
  The index is a position counted from the front; an index outside the list
  raises \<^verbatim>\<open>IndexError\<close>.
\<close>

definition change_input_rest ::
  "env \<Rightarrow> client \<Rightarrow> nat \<Rightarrow> var \<Rightarrow> var \<Rightarrow> reason \<Rightarrow> bool \<Rightarrow> fgraph \<Rightarrow> result" where
  "change_input_rest E c i r new_var reason import_missing s =
     (if r = new_var then Ok s
      else and_then (import_var E new_var reason import_missing s) (\<lambda>s.
           and_then (add_client new_var (c, i) s) (\<lambda>s.
           and_then (remove_client E r (c, i) reason s)
             (execute_callbacks E (CB_change_input c i r new_var reason)))))"

definition change_input ::
  "env \<Rightarrow> client \<Rightarrow> nat \<Rightarrow> var \<Rightarrow> reason \<Rightarrow> bool \<Rightarrow> fgraph \<Rightarrow> result" where
  "change_input E c i new_var reason import_missing s =
     (case c of
        Output \<Rightarrow>
          if i < length (outputs s) then
            let r = outputs s ! i in
            if vtype (var_obj E r) \<noteq> vtype (var_obj E new_var) then Raise TypeError s
            else change_input_rest E c i r new_var reason import_missing
                   (s\<lparr>outputs := (outputs s)[i := new_var]\<rparr>)
          else Raise IndexError s
      | Node n \<Rightarrow>
          if i < length (node_inputs (nodes s n)) then
            let r = node_inputs (nodes s n) ! i in
            if vtype (var_obj E r) \<noteq> vtype (var_obj E new_var) then Raise TypeError s
            else change_input_rest E c i r new_var reason import_missing
                   (s\<lparr>nodes := (nodes s)
                        (n := (nodes s n)\<lparr>node_inputs := (node_inputs (nodes s n))[i := new_var]\<rparr>)\<rparr>)
          else Raise IndexError s)"

text \<open>
  The \<^verbatim>\<open>assert\<close> in the loop of \<^verbatim>\<open>replace\<close>: when the client is \<^verbatim>\<open>"output"\<close> and
  the first disjunct fails, the second reads \<^verbatim>\<open>"output".inputs\<close>.
\<close>

definition replace_assert :: "var \<Rightarrow> edge \<Rightarrow> fgraph \<Rightarrow> exn option" where
  "replace_assert v e s =
     (case e of
        (Output, i) \<Rightarrow>
          if i < length (outputs s)
          then (if outputs s ! i = v then None else Some AttributeError)
          else Some IndexError
      | (Node n, i) \<Rightarrow>
          if i < length (node_inputs (nodes s n))
          then (if node_inputs (nodes s n) ! i = v then None else Some AssertionError)
          else Some IndexError)"

fun replace_loop ::
  "env \<Rightarrow> var \<Rightarrow> var \<Rightarrow> reason \<Rightarrow> bool \<Rightarrow> edge list \<Rightarrow> fgraph \<Rightarrow> result" where
  "replace_loop E v new_var reason import_missing [] s = Ok s"
| "replace_loop E v new_var reason import_missing ((c, i) # rest) s =
     (case replace_assert v (c, i) s of
        Some e \<Rightarrow> Raise e s
      | None \<Rightarrow>
          and_then (change_input E c i new_var reason import_missing s)
            (replace_loop E v new_var reason import_missing rest))"

text \<open>
  \<^verbatim>\<open>replace\<close>.  The \<^verbatim>\<open>verbose\<close> branch only prints and is left out.
\<close>

definition test_value_mismatch :: "env \<Rightarrow> var \<Rightarrow> var \<Rightarrow> bool" where
  "test_value_mismatch E v new_var =
     (compute_test_value E \<noteq> ''off'' \<and>
      (case get_test_value E v of
         None \<Rightarrow> False
       | Some tval \<Rightarrow>
           (case get_test_value E new_var of
              None \<Rightarrow> False
            | Some new_tval \<Rightarrow> tval \<noteq> new_tval)))"

definition replace :: "env \<Rightarrow> var \<Rightarrow> var \<Rightarrow> reason \<Rightarrow> bool \<Rightarrow> fgraph \<Rightarrow> result" where
  "replace E v new_var0 reason import_missing s =
     (case filter_variable E (vtype (var_obj E v)) new_var0 of
        Inl e \<Rightarrow> Raise e s
      | Inr new_var \<Rightarrow>
          if v |\<notin>| variables s then Ok (s\<lparr>warnings := warnings s @ [v]\<rparr>)
          else if test_value_mismatch E v new_var then Raise AssertionError s
          else (case clients s v of
                  None \<Rightarrow> Raise KeyError s
                | Some cl \<Rightarrow> replace_loop E v new_var reason import_missing cl s))"

fun replace_all ::
  "env \<Rightarrow> (var \<times> var) list \<Rightarrow> reason \<Rightarrow> bool \<Rightarrow> fgraph \<Rightarrow> result" where
  "replace_all E [] reason import_missing s = Ok s"
| "replace_all E ((v, new_var) # pairs) reason import_missing s =
     and_then (replace E v new_var reason import_missing s)
       (replace_all E pairs reason import_missing)"

section \<open>Construction\<close>

definition empty_fgraph :: "(node \<Rightarrow> Apply) \<Rightarrow> var list \<Rightarrow> fgraph" where
  "empty_fgraph N outs =
     \<lparr>nodes = N, inputs = [], outputs = outs, variables = {||}, apply_nodes = {||},
      clients = Map.empty, features = [], execute_callbacks_times = {||},
      log = [], warnings = []\<rparr>"

fun attach_features :: "env \<Rightarrow> fid list \<Rightarrow> fgraph \<Rightarrow> result" where
  "attach_features E [] s = Ok s"
| "attach_features E (f # fs) s = and_then (attach_feature E f s) (attach_features E fs)"

text \<open>\<^verbatim>\<open>for in_var in inputs\<close> of the constructor.\<close>

fun add_inputs :: "env \<Rightarrow> var list \<Rightarrow> fgraph \<Rightarrow> result" where
  "add_inputs E [] s = Ok s"
| "add_inputs E (in_var # rest) s =
     (if owner (var_obj E in_var) \<noteq> None then Raise ValueError s
      else add_inputs E rest (add_input in_var False s))"

fun import_outputs :: "env \<Rightarrow> var list \<Rightarrow> fgraph \<Rightarrow> result" where
  "import_outputs E [] s = Ok s"
| "import_outputs E (output # rest) s =
     and_then (import_var E output (Some ''init'') False s) (import_outputs E rest)"

text \<open>\<^verbatim>\<open>for i, output in enumerate(outputs)\<close>, from index \<open>i\<close> on.\<close>

fun add_output_clients :: "nat \<Rightarrow> var list \<Rightarrow> fgraph \<Rightarrow> result" where
  "add_output_clients i [] s = Ok s"
| "add_output_clients i (output # rest) s =
     and_then (add_client output (Output, i) s) (add_output_clients (Suc i) rest)"

text \<open>
  \<^verbatim>\<open>FunctionGraph.__init__\<close>, from the Apply table \<open>N\<close> of the caller.
  \<open>init_args\<close> is the part up to \<^verbatim>\<open>inputs = [memo[i] for i in inputs]\<close>: the Apply
  table, the inputs and the outputs the rest of the constructor works on.  The
  arguments \<^verbatim>\<open>memo\<close>, \<^verbatim>\<open>copy_inputs\<close> and \<^verbatim>\<open>copy_orphans\<close> are those of
  \<^verbatim>\<open>clone_get_equiv\<close> and are part of that parameter.
\<close>

definition init_args ::
  "env \<Rightarrow> (node \<Rightarrow> Apply) \<Rightarrow> var list option \<Rightarrow> var list \<Rightarrow> bool
     \<Rightarrow> (node \<Rightarrow> Apply) \<times> var list \<times> var list" where
  "init_args E N inputs0 outs0 clone =
     (let ins0 = (case inputs0 of None \<Rightarrow> graph_inputs E N outs0 | Some ins \<Rightarrow> ins);
          memo = snd (clone_get_equiv E N ins0 outs0)
      in if clone then (fst (clone_get_equiv E N ins0 outs0), map memo ins0, map memo outs0)
         else (N, ins0, outs0))"

definition FunctionGraph_init ::
  "env \<Rightarrow> (node \<Rightarrow> Apply) \<Rightarrow> var list option \<Rightarrow> var list option \<Rightarrow> fid list option \<Rightarrow> bool
     \<Rightarrow> result" where
  "FunctionGraph_init E N inputs0 outputs0 features0 clone =
     (case outputs0 of
        None \<Rightarrow> Raise ValueError (empty_fgraph N [])
      | Some outs0 \<Rightarrow>
          (case init_args E N inputs0 outs0 clone of
             (N1, ins, outs) \<Rightarrow>
               and_then
                 (attach_features E (case features0 of None \<Rightarrow> [] | Some fs \<Rightarrow> fs)
                    (empty_fgraph N1 outs)) (\<lambda>s.
               and_then (attach_feature E (ReplaceValidate E) s) (\<lambda>s.
               and_then (add_inputs E ins s) (\<lambda>s.
               and_then (import_outputs E outs s)
                 (add_output_clients 0 outs))))))"

section \<open>An example graph\<close>

text \<open>
  The objects of the scenarios of the specification: inputs \<open>x = 0\<close> and
  \<open>y = 1\<close>; \<open>a = 2\<close>, the output of node \<open>0 = Add(x, y)\<close>; \<open>b = 3\<close>, the output
  of node \<open>1 = Mul(a, x)\<close>; \<open>4\<close>, an ownerless variable of another type; \<open>5\<close>, an
  ownerless variable of the type of \<open>x\<close>; \<open>6\<close>, an ownerless variable of the null
  type; the constant \<open>7\<close>; node \<open>2\<close> with input \<open>x\<close> and the two outputs \<open>8\<close> and
  \<open>9\<close>; node \<open>3\<close> with inputs \<open>8\<close> and \<open>9\<close> and output \<open>10\<close>; node \<open>4\<close> with
  input \<open>5\<close> and output \<open>11\<close>.
\<close>

definition ex_var :: "var \<Rightarrow> Variable" where
  "ex_var v =
     \<lparr>vtype = (if v = 4 then Type 1 else if v = 6 then NullType else Type 0),
      owner = (if v = 2 then Some 0 else if v = 3 then Some 1
               else if v = 8 \<or> v = 9 then Some 2 else if v = 10 then Some 3
               else if v = 11 then Some 4 else None),
      is_Constant = (v = 7)\<rparr>"

definition ex_nodes :: "node \<Rightarrow> Apply" where
  "ex_nodes n =
     \<lparr>view_map = [], destroy_map = [],
      node_inputs = (if n = 0 then [0, 1] else if n = 1 then [2, 0]
                     else if n = 2 then [0] else if n = 3 then [8, 9]
                     else if n = 4 then [5] else []),
      node_outputs = (if n = 0 then [2] else if n = 1 then [3]
                      else if n = 2 then [8, 9] else if n = 3 then [10]
                      else if n = 4 then [11] else []),
      imported_by = [], removed_by = []\<rparr>"

text \<open>
  Feature \<open>0\<close> has every hook; the \<^verbatim>\<open>on_attach\<close> of feature \<open>1\<close> raises
  \<^verbatim>\<open>AlreadyThere\<close>, that of feature \<open>2\<close> raises \<^verbatim>\<open>InconsistencyError\<close>; the other
  features have no hook.
\<close>

definition ex_feature :: "fid \<Rightarrow> Feature" where
  "ex_feature f =
     (if f = 0 then
        \<lparr>on_attach = Some None, on_detach = Some None,
         on_import = Some (\<lambda>n r. None), on_prune = Some (\<lambda>n r. None),
         on_change_input = Some (\<lambda>c i old new r. None)\<rparr>
      else
        \<lparr>on_attach = (if f = 1 then Some (Some AlreadyThere)
                      else if f = 2 then Some (Some InconsistencyError) else None),
         on_detach = None, on_import = None, on_prune = None, on_change_input = None\<rparr>)"

text \<open>
  A depth-first instance of the \<^verbatim>\<open>io_toposort\<close> parameter for the examples: the
  owners of the variables that are not known, each after the owners of its
  inputs, to a bounded depth.
\<close>

fun ex_visit :: "nat \<Rightarrow> (node \<Rightarrow> Apply) \<Rightarrow> var fset \<Rightarrow> var list \<Rightarrow> node list \<Rightarrow> node list" where
  "ex_visit 0 N known vs acc = acc"
| "ex_visit (Suc k) N known [] acc = acc"
| "ex_visit (Suc k) N known (v # vs) acc =
     (case (if v |\<in>| known then None else owner (ex_var v)) of
        None \<Rightarrow> ex_visit (Suc k) N known vs acc
      | Some n \<Rightarrow>
          if n \<in> set acc then ex_visit (Suc k) N known vs acc
          else ex_visit (Suc k) N known vs (ex_visit k N known (node_inputs (N n)) acc @ [n]))"

definition ex_env :: env where
  "ex_env =
     \<lparr>var_obj = ex_var, feature_obj = ex_feature,
      io_toposort = (\<lambda>N known outs. Inr (ex_visit (Suc (Suc (Suc (Suc 0)))) N known outs [])),
      graph_inputs = (\<lambda>N outs. []),
      clone_get_equiv = (\<lambda>N ins outs. (N, id)),
      filter_variable = (\<lambda>t v. if vtype (ex_var v) = t then Inr v else Inl TypeError),
      compute_test_value = ''off'',
      get_test_value = (\<lambda>v. None),
      ReplaceValidate = 0\<rparr>"

text \<open>The graph with inputs \<open>[x, y]\<close> and outputs \<open>[b]\<close>, with feature \<open>0\<close> attached.\<close>

definition ex_graph :: fgraph where
  "ex_graph =
     \<lparr>nodes = ex_nodes, inputs = [0, 1], outputs = [3],
      variables = {|0, 1, 2, 3|}, apply_nodes = {|0, 1|},
      clients = [0 \<mapsto> [(Node 0, 0), (Node 1, 1)], 1 \<mapsto> [(Node 0, 1)],
                 2 \<mapsto> [(Node 1, 0)], 3 \<mapsto> [(Output, 0)]],
      features = [0], execute_callbacks_times = {|0|}, log = [], warnings = []\<rparr>"

section \<open>Reading a slot\<close>

text \<open>
  The variable that \<^verbatim>\<open>change_input(node, i, ...)\<close> finds in the slot:
  \<^verbatim>\<open>self.outputs[i]\<close> or \<^verbatim>\<open>node.inputs[i]\<close>.
\<close>

definition slot :: "fgraph \<Rightarrow> client \<Rightarrow> nat \<Rightarrow> var option" where
  "slot s c i =
     (case c of
        Output \<Rightarrow> if i < length (outputs s) then Some (outputs s ! i) else None
      | Node n \<Rightarrow>
          if i < length (node_inputs (nodes s n)) then Some (node_inputs (nodes s n) ! i)
          else None)"

section \<open>Properties of the feature list\<close>

lemma attach_feature_present: "f \<in> set (features s) \<Longrightarrow> attach_feature E f s = Ok s"
  by (simp add: attach_feature_def)

lemma attach_feature_raises:
  "f \<notin> set (features s) \<Longrightarrow> on_attach (feature_obj E f) = Some (Some e) \<Longrightarrow>
   attach_feature E f s =
     (if e = AlreadyThere then Ok (s\<lparr>log := log s @ [OnAttach f]\<rparr>)
      else Raise e (s\<lparr>log := log s @ [OnAttach f]\<rparr>))"
  by (simp add: attach_feature_def)

lemma remove_feature_absent: "f \<notin> set (features s) \<Longrightarrow> remove_feature E f s = Ok s"
  by (simp add: remove_feature_def)

lemma remove_feature_present:
  "f \<in> set (features s) \<Longrightarrow>
   remove_feature E f s =
     (case on_detach (feature_obj E f) of
        None \<Rightarrow> Ok (s\<lparr>features := remove1 f (features s)\<rparr>)
      | Some None \<Rightarrow>
          Ok (s\<lparr>features := remove1 f (features s), log := log s @ [OnDetach f]\<rparr>)
      | Some (Some e) \<Rightarrow>
          Raise e (s\<lparr>features := remove1 f (features s), log := log s @ [OnDetach f]\<rparr>))"
  by (simp add: remove_feature_def Let_def split: option.splits)

section \<open>Properties of change_input and replace on an unchanged slot\<close>

lemma change_input_same:
  assumes "slot s c i = Some w"
  shows "change_input E c i w reason import_missing s = Ok s"
proof (cases c)
  case Output
  then have i: "i < length (outputs s)" "outputs s ! i = w"
    using assms by (auto simp: slot_def split: if_splits)
  then have "(outputs s)[i := w] = outputs s" by (metis list_update_id)
  then show ?thesis using Output i
    by (simp add: change_input_def change_input_rest_def)
next
  case (Node n)
  then have i: "i < length (node_inputs (nodes s n))" "node_inputs (nodes s n) ! i = w"
    using assms by (auto simp: slot_def split: if_splits)
  then have "(node_inputs (nodes s n))[i := w] = node_inputs (nodes s n)"
    by (metis list_update_id)
  then show ?thesis using Node i
    by (simp add: change_input_def change_input_rest_def)
qed

lemma replace_assert_slot: "replace_assert v (c, i) s = None \<longleftrightarrow> slot s c i = Some v"
  by (cases c) (auto simp: replace_assert_def slot_def)

lemma replace_loop_same_state:
  "state_of (replace_loop E v v reason import_missing cl s) = s"
proof (induction cl)
  case Nil
  show ?case by simp
next
  case (Cons e cl)
  obtain c i where e: "e = (c, i)" by (cases e)
  show ?case
  proof (cases "replace_assert v (c, i) s")
    case None
    then have "change_input E c i v reason import_missing s = Ok s"
      by (simp add: replace_assert_slot change_input_same)
    then show ?thesis using None Cons e by simp
  next
    case (Some x)
    then show ?thesis using e by simp
  qed
qed

lemma replace_loop_same_ok:
  "\<forall>e \<in> set cl. slot s (fst e) (snd e) = Some v \<Longrightarrow>
   replace_loop E v v reason import_missing cl s = Ok s"
proof (induction cl)
  case Nil
  show ?case by simp
next
  case (Cons e cl)
  obtain c i where e: "e = (c, i)" by (cases e)
  then have sl: "slot s c i = Some v" using Cons.prems by simp
  then have "replace_assert v (c, i) s = None" by (simp add: replace_assert_slot)
  moreover have "change_input E c i v reason import_missing s = Ok s"
    using sl by (rule change_input_same)
  ultimately show ?case using Cons e by simp
qed

lemma test_value_mismatch_same: "\<not> test_value_mismatch E v v"
  by (simp add: test_value_mismatch_def split: option.splits)

section \<open>The claims on features\<close>

text \<open>
  C9.  Feature attach idempotence: \<^verbatim>\<open>attach_feature(f)\<close> for an \<open>f\<close> that is
  already in the feature list returns with the state as it was, so the list is
  unchanged and \<^verbatim>\<open>on_attach\<close> is not called again (the log is unchanged); when
  \<^verbatim>\<open>on_attach\<close> raises \<^verbatim>\<open>AlreadyThere\<close> the call returns normally and \<open>f\<close> is not
  added; \<^verbatim>\<open>remove_feature(f)\<close> for an \<open>f\<close> that is not in the list returns with
  the state as it was (no \<^verbatim>\<open>on_detach\<close>), and for an \<open>f\<close> in the list it removes
  \<open>f\<close> and calls \<^verbatim>\<open>on_detach\<close> exactly when it is defined.
\<close>

theorem feature_attach_idempotence:
  "(f \<in> set (features s) \<longrightarrow> attach_feature E f s = Ok s)
   \<and> (f \<notin> set (features s) \<and> on_attach (feature_obj E f) = Some (Some AlreadyThere) \<longrightarrow>
        (\<exists>s'. attach_feature E f s = Ok s' \<and> features s' = features s
              \<and> execute_callbacks_times s' = execute_callbacks_times s))
   \<and> (f \<notin> set (features s) \<longrightarrow> remove_feature E f s = Ok s)
   \<and> (f \<in> set (features s) \<longrightarrow>
        features (state_of (remove_feature E f s)) = remove1 f (features s)
        \<and> log (state_of (remove_feature E f s)) =
            log s @ (if on_detach (feature_obj E f) = None then [] else [OnDetach f]))"
  by (auto simp: attach_feature_present attach_feature_raises remove_feature_absent
                 remove_feature_present split: option.splits)

theorem feature_attach_idempotence_witness:
  "(0 \<in> set (features ex_graph) \<and> attach_feature ex_env 0 ex_graph = Ok ex_graph)
   \<and> (1 \<notin> set (features ex_graph) \<and> on_attach (feature_obj ex_env 1) = Some (Some AlreadyThere)
      \<and> (\<exists>s'. attach_feature ex_env 1 ex_graph = Ok s' \<and> features s' = features ex_graph
               \<and> execute_callbacks_times s' = execute_callbacks_times ex_graph))
   \<and> (1 \<notin> set (features ex_graph) \<and> remove_feature ex_env 1 ex_graph = Ok ex_graph)
   \<and> (0 \<in> set (features ex_graph)
      \<and> features (state_of (remove_feature ex_env 0 ex_graph)) = []
      \<and> log (state_of (remove_feature ex_env 0 ex_graph)) = [OnDetach 0])"
proof -
  have a: "0 \<in> set (features ex_graph)" and b: "1 \<notin> set (features ex_graph)"
    by (simp_all add: ex_graph_def)
  have c: "on_attach (feature_obj ex_env 1) = Some (Some AlreadyThere)"
    and d: "on_detach (feature_obj ex_env 0) \<noteq> None"
    by (simp_all add: ex_env_def ex_feature_def)
  have r: "remove1 0 (features ex_graph) = []" "log ex_graph = []"
    by (simp_all add: ex_graph_def)
  show ?thesis
    using feature_attach_idempotence [of 0 ex_graph ex_env]
      feature_attach_idempotence [of 1 ex_graph ex_env] a b c d r
    by simp
qed

text \<open>
  C10.  Attach atomicity: when \<open>f\<close> is not attached and its \<^verbatim>\<open>on_attach\<close> raises
  an exception other than \<^verbatim>\<open>AlreadyThere\<close>, \<^verbatim>\<open>attach_feature(f)\<close> raises that
  exception, and the feature list and the keys of \<^verbatim>\<open>execute_callbacks_times\<close>
  are unchanged: the state differs only by the recorded call of \<^verbatim>\<open>on_attach\<close>.
\<close>

theorem attach_feature_atomic:
  assumes "f \<notin> set (features s)"
    and "on_attach (feature_obj E f) = Some (Some e)"
    and "e \<noteq> AlreadyThere"
  shows "attach_feature E f s = Raise e (s\<lparr>log := log s @ [OnAttach f]\<rparr>)
         \<and> features (state_of (attach_feature E f s)) = features s
         \<and> execute_callbacks_times (state_of (attach_feature E f s)) = execute_callbacks_times s"
  using assms by (simp add: attach_feature_raises)

theorem attach_feature_atomic_witness:
  "2 \<notin> set (features ex_graph)
   \<and> on_attach (feature_obj ex_env 2) = Some (Some InconsistencyError)
   \<and> InconsistencyError \<noteq> AlreadyThere
   \<and> attach_feature ex_env 2 ex_graph
       = Raise InconsistencyError (ex_graph\<lparr>log := log ex_graph @ [OnAttach 2]\<rparr>)
   \<and> features (state_of (attach_feature ex_env 2 ex_graph)) = [0]
   \<and> execute_callbacks_times (state_of (attach_feature ex_env 2 ex_graph)) = {|0|}"
proof -
  have a: "2 \<notin> set (features ex_graph)" by (simp add: ex_graph_def)
  have b: "on_attach (feature_obj ex_env 2) = Some (Some InconsistencyError)"
    by (simp add: ex_env_def ex_feature_def)
  have c: "features ex_graph = [0]" "execute_callbacks_times ex_graph = {|0|}"
    by (simp_all add: ex_graph_def)
  show ?thesis using attach_feature_atomic [OF a b] a b c by simp
qed

section \<open>The claims on an unchanged or mismatched slot\<close>

text \<open>
  C3.  Type-mismatch atomicity of \<^verbatim>\<open>change_input\<close>: for a slot \<open>(c, i)\<close> of the
  outputs or of a node that holds \<open>r\<close>, and a \<open>new_var\<close> whose type is not equal
  to the type of \<open>r\<close>, \<^verbatim>\<open>change_input\<close> raises \<^verbatim>\<open>TypeError\<close> and the whole state
  (the slot, inputs, outputs, variables, apply_nodes, clients, and the log of
  the hook calls) is as before.
\<close>

theorem change_input_type_mismatch:
  assumes "slot s c i = Some r"
    and "vtype (var_obj E r) \<noteq> vtype (var_obj E new_var)"
  shows "change_input E c i new_var reason import_missing s = Raise TypeError s"
  using assms by (cases c) (auto simp: change_input_def slot_def split: if_splits)

theorem change_input_type_mismatch_witness:
  "slot ex_graph (Node 1) 0 = Some 2
   \<and> vtype (var_obj ex_env 2) \<noteq> vtype (var_obj ex_env 4)
   \<and> change_input ex_env (Node 1) 0 4 None False ex_graph = Raise TypeError ex_graph"
proof -
  have a: "slot ex_graph (Node 1) 0 = Some 2"
    by (simp add: slot_def ex_graph_def ex_nodes_def)
  have b: "vtype (var_obj ex_env 2) \<noteq> vtype (var_obj ex_env 4)"
    by (simp add: ex_env_def ex_var_def)
  show ?thesis using change_input_type_mismatch [OF a b] a b by simp
qed

text \<open>
  C6.  Idempotent replace: for \<open>v\<close> in \<open>variables\<close> with
  \<^verbatim>\<open>v.type.filter_variable(v)\<close> returning \<open>v\<close>, \<^verbatim>\<open>replace(v, v)\<close> leaves the whole
  state as it was (no membership changes, no hook call recorded), and it returns
  normally when every client of \<open>v\<close> is a slot that holds \<open>v\<close>; and
  \<^verbatim>\<open>change_input(n, i, w)\<close> on a slot that holds \<open>w\<close> returns with the state as it
  was.
\<close>

theorem replace_same_is_noop:
  "(v |\<in>| variables s \<and> filter_variable E (vtype (var_obj E v)) v = Inr v \<longrightarrow>
      state_of (replace E v v reason import_missing s) = s
      \<and> (\<forall>cl. clients s v = Some cl \<and> (\<forall>e \<in> set cl. slot s (fst e) (snd e) = Some v) \<longrightarrow>
            replace E v v reason import_missing s = Ok s))
   \<and> (slot s c i = Some w \<longrightarrow> change_input E c i w reason import_missing s = Ok s)"
  by (auto simp: replace_def test_value_mismatch_same replace_loop_same_state
                 replace_loop_same_ok change_input_same split: option.splits)

theorem replace_same_is_noop_witness:
  "0 |\<in>| variables ex_graph
   \<and> filter_variable ex_env (vtype (var_obj ex_env 0)) 0 = Inr 0
   \<and> clients ex_graph 0 = Some [(Node 0, 0), (Node 1, 1)]
   \<and> slot ex_graph (Node 0) 0 = Some 0 \<and> slot ex_graph (Node 1) 1 = Some 0
   \<and> replace ex_env 0 0 None False ex_graph = Ok ex_graph
   \<and> state_of (replace ex_env 0 0 None False ex_graph) = ex_graph
   \<and> slot ex_graph Output 0 = Some 3
   \<and> change_input ex_env Output 0 3 None False ex_graph = Ok ex_graph"
proof -
  have a: "0 |\<in>| variables ex_graph" by (simp add: ex_graph_def)
  have b: "filter_variable ex_env (vtype (var_obj ex_env 0)) 0 = Inr 0"
    by (simp add: ex_env_def)
  have c: "clients ex_graph 0 = Some [(Node 0, 0), (Node 1, 1)]"
    by (simp add: ex_graph_def)
  have d: "\<forall>e \<in> set [(Node 0, 0), (Node 1, 1)]. slot ex_graph (fst e) (snd e) = Some 0"
    by (simp add: slot_def ex_graph_def ex_nodes_def)
  have e: "slot ex_graph Output 0 = Some 3" by (simp add: slot_def ex_graph_def)
  show ?thesis
    using replace_same_is_noop [of 0 ex_graph ex_env None False Output 0 3] a b c d e
    by simp
qed

text \<open>
  C8.  Silent no-op replace: when \<^verbatim>\<open>filter_variable\<close> returns and \<open>v\<close> is not in
  \<open>variables\<close>, \<^verbatim>\<open>replace(v, new_var)\<close> records a warning and returns normally; the
  rest of the state (inputs, outputs, variables, apply_nodes, clients, the log
  of the hook calls) is as before.
\<close>

theorem replace_absent_warns:
  assumes "filter_variable E (vtype (var_obj E v)) new_var = Inr new_var'"
    and "v |\<notin>| variables s"
  shows "replace E v new_var reason import_missing s = Ok (s\<lparr>warnings := warnings s @ [v]\<rparr>)"
  using assms by (simp add: replace_def)

theorem replace_absent_warns_witness:
  "filter_variable ex_env (vtype (var_obj ex_env 5)) 1 = Inr 1
   \<and> 5 |\<notin>| variables ex_graph
   \<and> replace ex_env 5 1 None False ex_graph = Ok (ex_graph\<lparr>warnings := [5]\<rparr>)"
proof -
  have a: "filter_variable ex_env (vtype (var_obj ex_env 5)) 1 = Inr 1"
    by (simp add: ex_env_def ex_var_def)
  have b: "5 |\<notin>| variables ex_graph" by (simp add: ex_graph_def)
  have c: "warnings ex_graph = []" by (simp add: ex_graph_def)
  show ?thesis using replace_absent_warns [OF a b] a b c by simp
qed

section \<open>Import of missing inputs\<close>

lemma run_callbacks_frame: "\<exists>l. state_of (run_callbacks E cb fs s) = s\<lparr>log := l\<rparr>"
proof (induction fs arbitrary: s)
  case Nil
  have "s = s\<lparr>log := log s\<rparr>" by simp
  then show ?case by (metis run_callbacks.simps(1) state_of.simps(1))
next
  case (Cons f fs)
  show ?case
  proof (cases "hook (feature_obj E f) cb")
    case None
    then show ?thesis using Cons by simp
  next
    case (Some outcome)
    obtain l where l: "state_of (run_callbacks E cb fs (s\<lparr>log := log s @ [event_of f cb]\<rparr>))
        = s\<lparr>log := log s @ [event_of f cb], log := l\<rparr>"
      using Cons by blast
    show ?thesis
    proof (cases "outcome = None \<and> f |\<in>| execute_callbacks_times s")
      case True
      then show ?thesis using Some l by (auto simp: Let_def)
    next
      case False
      then have "state_of (run_callbacks E cb (f # fs) s) = s\<lparr>log := log s @ [event_of f cb]\<rparr>"
        using Some by (auto simp: Let_def split: option.splits)
      then show ?thesis by blast
    qed
  qed
qed

lemma execute_callbacks_frame: "\<exists>l. state_of (execute_callbacks E cb s) = s\<lparr>log := l\<rparr>"
  by (simp add: execute_callbacks_def run_callbacks_frame)

text \<open>An operation that leaves the inputs and only adds variables and client lists.\<close>

definition grows :: "fgraph \<Rightarrow> fgraph \<Rightarrow> bool" where
  "grows s s' =
     (inputs s' = inputs s \<and> variables s |\<subseteq>| variables s' \<and> dom (clients s) \<subseteq> dom (clients s'))"

lemma grows_refl: "grows s s"
  by (simp add: grows_def)

lemma grows_trans: "grows s s' \<Longrightarrow> grows s' s'' \<Longrightarrow> grows s s''"
  by (auto simp: grows_def)

lemma grows_and_then:
  assumes "grows s (state_of r)" and "\<And>t. grows t (state_of (f t))"
  shows "grows s (state_of (and_then r f))"
proof (cases r)
  case (Ok t)
  then show ?thesis using assms grows_trans by fastforce
next
  case (Raise e t)
  then show ?thesis using assms by simp
qed

lemma grows_execute_callbacks: "grows s (state_of (execute_callbacks E cb s))"
proof -
  obtain l where "state_of (execute_callbacks E cb s) = s\<lparr>log := l\<rparr>"
    using execute_callbacks_frame by blast
  then show ?thesis by (simp add: grows_def)
qed

lemma grows_track_var: "grows s (track_var v s)"
  by (auto simp: grows_def track_var_def setup_var_def Let_def split: option.splits)

lemma grows_fold_track_var: "grows s (fold track_var vs s)"
proof (induction vs arbitrary: s)
  case Nil
  show ?case by (simp add: grows_refl)
next
  case (Cons v vs)
  show ?case using grows_trans [OF grows_track_var Cons] by simp
qed

lemma grows_add_client: "grows s (state_of (add_client v e s))"
  by (auto simp: grows_def add_client_def split: option.splits)

lemma grows_add_input_clients: "grows s (state_of (add_input_clients n i vs s))"
proof (induction vs arbitrary: s i)
  case Nil
  show ?case by (simp add: grows_refl)
next
  case (Cons v vs)
  let ?t = "if v |\<notin>| variables s then track_var v s else s"
  have a: "grows s ?t" by (simp add: grows_track_var grows_refl)
  have b: "grows ?t (state_of (add_client v (Node n, i) ?t))" by (rule grows_add_client)
  show ?case
    using grows_and_then [of s "add_client v (Node n, i) ?t" "add_input_clients n (Suc i) vs"]
      grows_trans [OF a b] Cons
    by simp
qed

lemma grows_setup_node: "grows s (state_of (setup_node n s))"
  by (simp add: setup_node_def grows_refl)

lemma grows_import_new_nodes: "grows s (state_of (import_new_nodes E reason ns s))"
proof (induction ns arbitrary: s)
  case Nil
  show ?case by (simp add: grows_refl)
next
  case (Cons n ns)
  show ?case
  proof (cases "n |\<in>| apply_nodes s \<or> bad_map (view_map (nodes s n)) \<or> bad_map (destroy_map (nodes s n))")
    case True
    then show ?thesis by (auto simp: setup_node_def grows_refl)
  next
    case False
    define s1 where "s1 = s\<lparr>apply_nodes := finsert n (apply_nodes s),
       nodes := (nodes s)(n := (nodes s n)\<lparr>imported_by := imported_by (nodes s n) @ [str reason]\<rparr>)\<rparr>"
    define s2 where "s2 = fold track_var (node_outputs (nodes s n)) s1"
    have g1: "grows s s1" by (simp add: s1_def grows_def)
    have g2: "grows s s2" using grows_trans [OF g1 grows_fold_track_var] by (simp add: s2_def)
    have g3: "grows s (state_of (add_input_clients n 0 (node_inputs (nodes s n)) s2))"
      using grows_trans [OF g2 grows_add_input_clients] .
    have "grows s (state_of (and_then (add_input_clients n 0 (node_inputs (nodes s n)) s2)
            (\<lambda>s3. and_then (execute_callbacks E (CB_import n reason) s3)
                     (import_new_nodes E reason ns))))"
      by (intro grows_and_then g3 grows_execute_callbacks Cons)
    then show ?thesis using False
      by (simp add: setup_node_def Let_def s1_def s2_def)
  qed
qed


lemma check_inputs_False:
  "check_inputs E False vs s =
     (if \<exists>u \<in> set vs. missing_input E u s then Raise MissingInputError s else Ok s)"
  by (induction vs) auto

lemma check_new_nodes_False:
  "check_new_nodes E False ns s =
     (if \<exists>n \<in> set ns. \<exists>u \<in> set (node_inputs (nodes s n)). missing_input E u s
      then Raise MissingInputError s else Ok s)"
  by (induction ns) (auto simp: check_inputs_False)

text \<open>What the check loops do to a state when \<open>import_missing\<close> is set.\<close>

definition promotes :: "fgraph \<Rightarrow> fgraph \<Rightarrow> bool" where
  "promotes s s' =
     (nodes s' = nodes s \<and> set (inputs s) \<subseteq> set (inputs s')
      \<and> variables s |\<subseteq>| variables s' \<and> dom (clients s) \<subseteq> dom (clients s')
      \<and> (\<forall>u \<in> set (inputs s'). u \<in> set (inputs s) \<or> (u |\<in>| variables s' \<and> u \<in> dom (clients s'))))"

lemma promotes_refl: "promotes s s"
  by (simp add: promotes_def)

lemma promotes_trans: "promotes s s' \<Longrightarrow> promotes s' s'' \<Longrightarrow> promotes s s''"
  unfolding promotes_def by (auto; blast)

lemma promotes_add_input: "promotes s (add_input v True s)"
  by (auto simp: promotes_def add_input_def track_var_def setup_var_def Let_def
           split: option.splits)

lemma add_input_mem: "v \<in> set (inputs (add_input v True s))"
  by (auto simp: add_input_def track_var_def setup_var_def Let_def split: option.splits)

lemma check_inputs_True:
  "\<exists>s'. check_inputs E True vs s = Ok s' \<and> promotes s s'
        \<and> (\<forall>u \<in> set vs. missing_input E u s \<longrightarrow> u \<in> set (inputs s'))"
proof (induction vs arbitrary: s)
  case Nil
  show ?case by (simp add: promotes_refl)
next
  case (Cons v vs)
  let ?t = "if missing_input E v s then add_input v True s else s"
  have pt: "promotes s ?t" by (simp add: promotes_add_input promotes_refl)
  obtain s' where s': "check_inputs E True vs ?t = Ok s'" "promotes ?t s'"
    "\<forall>u \<in> set vs. missing_input E u ?t \<longrightarrow> u \<in> set (inputs s')"
    using Cons [of ?t] by blast
  have sub: "set (inputs ?t) \<subseteq> set (inputs s')" using s'(2) by (simp add: promotes_def)
  have "\<forall>u \<in> set (v # vs). missing_input E u s \<longrightarrow> u \<in> set (inputs s')"
  proof (intro ballI impI)
    fix u assume u: "u \<in> set (v # vs)" "missing_input E u s"
    show "u \<in> set (inputs s')"
    proof (cases "u \<in> set (inputs ?t)")
      case True
      then show ?thesis using sub by blast
    next
      case False
      then have "u \<noteq> v" using u(2) add_input_mem [of v s] by auto
      moreover have "missing_input E u ?t" using u(2) False by (simp add: missing_input_def)
      ultimately show ?thesis using u(1) s'(3) by simp
    qed
  qed
  moreover have "check_inputs E True (v # vs) s = Ok s'"
    using s'(1) by (cases "missing_input E v s") simp_all
  ultimately show ?case using promotes_trans [OF pt s'(2)] by blast
qed

lemma check_new_nodes_True:
  "\<exists>s'. check_new_nodes E True ns s = Ok s' \<and> promotes s s'
        \<and> (\<forall>n \<in> set ns. \<forall>u \<in> set (node_inputs (nodes s n)).
              missing_input E u s \<longrightarrow> u \<in> set (inputs s'))"
proof (induction ns arbitrary: s)
  case Nil
  show ?case by (simp add: promotes_refl)
next
  case (Cons n ns)
  obtain t where t: "check_inputs E True (node_inputs (nodes s n)) s = Ok t" "promotes s t"
    "\<forall>u \<in> set (node_inputs (nodes s n)). missing_input E u s \<longrightarrow> u \<in> set (inputs t)"
    using check_inputs_True by blast
  obtain s' where s': "check_new_nodes E True ns t = Ok s'" "promotes t s'"
    "\<forall>m \<in> set ns. \<forall>u \<in> set (node_inputs (nodes t m)). missing_input E u t \<longrightarrow> u \<in> set (inputs s')"
    using Cons [of t] by blast
  have nt: "nodes t = nodes s" using t(2) by (simp add: promotes_def)
  have sub: "set (inputs t) \<subseteq> set (inputs s')" using s'(2) by (simp add: promotes_def)
  have "\<forall>m \<in> set (n # ns). \<forall>u \<in> set (node_inputs (nodes s m)).
          missing_input E u s \<longrightarrow> u \<in> set (inputs s')"
  proof (intro ballI impI)
    fix m u
    assume m: "m \<in> set (n # ns)" and u: "u \<in> set (node_inputs (nodes s m))" "missing_input E u s"
    show "u \<in> set (inputs s')"
    proof (cases "u \<in> set (inputs t)")
      case True
      then show ?thesis using sub by blast
    next
      case False
      then have "m \<noteq> n" using t(3) u by blast
      moreover have "missing_input E u t" using u(2) False by (simp add: missing_input_def)
      ultimately show ?thesis using m u(1) s'(3) nt by simp
    qed
  qed
  moreover have "check_new_nodes E True (n # ns) s = Ok s'" using t(1) s'(1) by simp
  ultimately show ?case using promotes_trans [OF t(2) s'(2)] by blast
qed

lemma import_node_promotes:
  assumes "io_toposort E (nodes s) (variables s) (node_outputs (nodes s a)) = Inr new_nodes"
    and "n \<in> set new_nodes" and "u \<in> set (node_inputs (nodes s n))" and "missing_input E u s"
  shows "u \<in> set (inputs (state_of (import_node E a True reason True s)))
         \<and> u |\<in>| variables (state_of (import_node E a True reason True s))
         \<and> clients (state_of (import_node E a True reason True s)) u \<noteq> None"
proof -
  obtain t where t: "check_new_nodes E True new_nodes s = Ok t" "promotes s t"
    "\<forall>n \<in> set new_nodes. \<forall>u \<in> set (node_inputs (nodes s n)).
       missing_input E u s \<longrightarrow> u \<in> set (inputs t)"
    using check_new_nodes_True by blast
  have ut: "u \<in> set (inputs t)" using t(3) assms by blast
  have "u \<notin> set (inputs s)" using assms(4) by (simp add: missing_input_def)
  then have tr: "u |\<in>| variables t" "u \<in> dom (clients t)"
    using ut t(2) by (auto simp: promotes_def)
  have g: "grows t (state_of (import_new_nodes E reason new_nodes t))"
    by (rule grows_import_new_nodes)
  have "import_node E a True reason True s = import_new_nodes E reason new_nodes t"
    using assms(1) t(1) by (simp add: import_node_def)
  then show ?thesis using g ut tr by (auto simp: grows_def)
qed

text \<open>
  C7 (amended).  Missing-input handling of import: for an ownerless \<open>v\<close> that is
  not a Constant, not in \<open>inputs\<close> and not of the null type,
  \<^verbatim>\<open>import_var(v, import_missing=False)\<close> raises \<^verbatim>\<open>MissingInputError\<close> with the
  state as it was, and \<^verbatim>\<open>import_var(v, import_missing=True)\<close> returns normally
  with \<open>v\<close> appended to \<open>inputs\<close>, added to \<open>variables\<close> and given a client list;
  \<^verbatim>\<open>import_node\<close> with \<open>check\<close> set applies the rule to each input \<open>u\<close> of each
  node of the topological order: without \<open>import_missing\<close> it raises
  \<^verbatim>\<open>MissingInputError\<close> with the state as it was, with \<open>import_missing\<close> the
  input is in \<open>inputs\<close>, in \<open>variables\<close> and has a client list afterwards.
\<close>

theorem import_missing_input:
  "(missing_input E v s \<and> vtype (var_obj E v) \<noteq> NullType \<longrightarrow>
      import_var E v reason False s = Raise MissingInputError s
      \<and> import_var E v reason True s =
          Ok (s\<lparr>inputs := inputs s @ [v],
                clients := (if clients s v = None then (clients s)(v \<mapsto> []) else clients s),
                variables := finsert v (variables s)\<rparr>))
   \<and> (io_toposort E (nodes s) (variables s) (node_outputs (nodes s a)) = Inr new_nodes
      \<and> n \<in> set new_nodes \<and> u \<in> set (node_inputs (nodes s n)) \<and> missing_input E u s \<longrightarrow>
        import_node E a True reason False s = Raise MissingInputError s
        \<and> u \<in> set (inputs (state_of (import_node E a True reason True s)))
        \<and> u |\<in>| variables (state_of (import_node E a True reason True s))
        \<and> clients (state_of (import_node E a True reason True s)) u \<noteq> None)"
proof (intro conjI impI)
  assume a: "missing_input E v s \<and> vtype (var_obj E v) \<noteq> NullType"
  then show "import_var E v reason False s = Raise MissingInputError s"
    by (simp add: import_var_def missing_input_def)
  show "import_var E v reason True s =
          Ok (s\<lparr>inputs := inputs s @ [v],
                clients := (if clients s v = None then (clients s)(v \<mapsto> []) else clients s),
                variables := finsert v (variables s)\<rparr>)"
    using a
    by (auto simp: import_var_def missing_input_def add_input_def track_var_def setup_var_def
                   Let_def split: option.splits)
next
  assume b: "io_toposort E (nodes s) (variables s) (node_outputs (nodes s a)) = Inr new_nodes
      \<and> n \<in> set new_nodes \<and> u \<in> set (node_inputs (nodes s n)) \<and> missing_input E u s"
  then show "import_node E a True reason False s = Raise MissingInputError s"
    by (auto simp: import_node_def check_new_nodes_False)
  show "u \<in> set (inputs (state_of (import_node E a True reason True s)))"
    "u |\<in>| variables (state_of (import_node E a True reason True s))"
    "clients (state_of (import_node E a True reason True s)) u \<noteq> None"
    using import_node_promotes [of E s a new_nodes n u reason] b by simp_all
qed


theorem import_missing_input_witness:
  "missing_input ex_env 5 ex_graph \<and> vtype (var_obj ex_env 5) \<noteq> NullType
   \<and> import_var ex_env 5 None False ex_graph = Raise MissingInputError ex_graph
   \<and> inputs (state_of (import_var ex_env 5 None True ex_graph)) = [0, 1, 5]
   \<and> io_toposort ex_env (nodes ex_graph) (variables ex_graph) (node_outputs (nodes ex_graph 4))
       = Inr [4]
   \<and> 4 \<in> set [4] \<and> 5 \<in> set (node_inputs (nodes ex_graph 4))
   \<and> import_node ex_env 4 True None False ex_graph = Raise MissingInputError ex_graph
   \<and> 5 \<in> set (inputs (state_of (import_node ex_env 4 True None True ex_graph)))"
proof -
  have a: "missing_input ex_env 5 ex_graph"
    by (simp add: missing_input_def ex_env_def ex_var_def ex_graph_def)
  have b: "vtype (var_obj ex_env 5) \<noteq> NullType" by (simp add: ex_env_def ex_var_def)
  have c: "io_toposort ex_env (nodes ex_graph) (variables ex_graph)
             (node_outputs (nodes ex_graph 4)) = Inr [4]"
    by (simp add: ex_env_def ex_graph_def ex_nodes_def ex_var_def)
  have d: "5 \<in> set (node_inputs (nodes ex_graph 4))" by (simp add: ex_graph_def ex_nodes_def)
  have e: "inputs ex_graph = [0, 1]" by (simp add: ex_graph_def)
  show ?thesis
    using import_missing_input [of ex_env 5 ex_graph None 4 "[4]" 4 5] a b c d e by simp
qed

theorem import_null_type_counterexample:
  "owner (var_obj ex_env 6) = None \<and> \<not> is_Constant (var_obj ex_env 6)
   \<and> 6 \<notin> set (inputs ex_graph)
   \<and> import_var ex_env 6 None False ex_graph = Raise TypeError ex_graph
   \<and> import_var ex_env 6 None False ex_graph \<noteq> Raise MissingInputError ex_graph
   \<and> import_var ex_env 6 None True ex_graph = Raise TypeError ex_graph"
  by (simp add: import_var_def ex_env_def ex_var_def ex_graph_def)

section \<open>A missing edge in the pruning loop\<close>

text \<open>The state with which a turn of the pruning loop ends.\<close>

fun turn_state :: "turn \<Rightarrow> fgraph" where
  "turn_state (Inl (e, s)) = s"
| "turn_state (Inr (pushed, s)) = s"









section \<open>What pruning leaves alone\<close>

text \<open>The fields that pruning does not write, and those it can only make smaller.\<close>

definition shrinks :: "fgraph \<Rightarrow> fgraph \<Rightarrow> bool" where
  "shrinks s s' =
     (inputs s' = inputs s \<and> outputs s' = outputs s \<and> features s' = features s
      \<and> execute_callbacks_times s' = execute_callbacks_times s \<and> warnings s' = warnings s
      \<and> variables s' |\<subseteq>| variables s \<and> apply_nodes s' |\<subseteq>| apply_nodes s
      \<and> dom (clients s') = dom (clients s)
      \<and> (\<forall>n. node_inputs (nodes s' n) = node_inputs (nodes s n)
             \<and> node_outputs (nodes s' n) = node_outputs (nodes s n)
             \<and> imported_by (nodes s' n) = imported_by (nodes s n)))"

lemma shrinks_refl: "shrinks s s"
  by (simp add: shrinks_def)

lemma shrinks_trans: "shrinks s s' \<Longrightarrow> shrinks s' s'' \<Longrightarrow> shrinks s s''"
  unfolding shrinks_def by (auto; blast)

lemma shrinks_log: "shrinks s (s\<lparr>log := l\<rparr>)"
  by (simp add: shrinks_def)

lemma shrinks_execute_callbacks: "shrinks s (state_of (execute_callbacks E cb s))"
  using execute_callbacks_frame [of E cb s] shrinks_log by auto

lemma shrinks_prune_node: "shrinks s (turn_state (prune_node E reason p s))"
proof -
  let ?s2 = "s\<lparr>nodes := (nodes s)(p := (nodes s p)\<lparr>removed_by := removed_by (nodes s p) @ [str reason]\<rparr>)\<rparr>"
  let ?s3 = "?s2\<lparr>apply_nodes := apply_nodes ?s2 |-| {|p|},
                 variables := variables ?s2 |-| fset_of_list (node_outputs (nodes s p))\<rparr>"
  have a: "shrinks s ?s2" by (simp add: shrinks_def)
  have b: "shrinks s ?s3" by (auto simp: shrinks_def)
  have c: "shrinks s (state_of (execute_callbacks E (CB_prune p reason) ?s3))"
    using shrinks_trans [OF b shrinks_execute_callbacks] .
  show ?thesis
  proof (cases "p |\<in>| apply_nodes s")
    case False
    then show ?thesis using a by (simp add: prune_node_def Let_def)
  next
    case True
    then show ?thesis using c
      by (cases "execute_callbacks E (CB_prune p reason) ?s3")
         (simp_all add: prune_node_def Let_def)
  qed
qed

lemma shrinks_remove_unused: "shrinks s (turn_state (remove_unused E reason v s))"
proof (cases "owner (var_obj E v)")
  case None
  then show ?thesis by (auto simp: remove_unused_def shrinks_def)
next
  case (Some p)
  then show ?thesis using shrinks_prune_node [of s E reason p]
    by (auto simp: remove_unused_def shrinks_refl split: sum.splits bool.splits)
qed

lemma shrinks_remove_client_step: "shrinks s (turn_state (remove_client_step E reason v e s))"
proof (cases "clients s v")
  case None
  then show ?thesis by (simp add: remove_client_step_def shrinks_refl)
next
  case (Some cl)
  let ?s1 = "s\<lparr>clients := (clients s)(v \<mapsto> remove1 e cl)\<rparr>"
  have a: "shrinks s ?s1" using Some by (auto simp: shrinks_def)
  have b: "shrinks s (turn_state (remove_unused E reason v ?s1))"
    using shrinks_trans [OF a shrinks_remove_unused] .
  show ?thesis
  proof (cases "e \<in> set cl")
    case False
    then show ?thesis using Some shrinks_remove_unused [of s E reason v]
      by (simp add: remove_client_step_def)
  next
    case True
    then show ?thesis using Some a b
      by (cases "remove1 e cl = []") (simp_all add: remove_client_step_def Let_def)
  qed
qed

lemma remove_client_loop_rel:
  assumes r: "\<And>s. R s s" and tr: "\<And>a b c. R a b \<Longrightarrow> R b c \<Longrightarrow> R a c"
    and st: "\<And>s v e. R s (turn_state (remove_client_step E reason v e s))"
  shows "R s (state_of (remove_client_loop E reason stack s))"
  using st
proof (induction E reason stack s rule: remove_client_loop.induct)
  case (1 E reason s)
  show ?case by (simp add: r)
next
  case (2 E reason v c removal_stack s)
  show ?case
  proof (cases "remove_client_step E reason v c s")
    case (Inl x)
    then show ?thesis using 2(2) [of s v c] by (cases x) simp
  next
    case (Inr y)
    obtain pushed s' where y: "y = (pushed, s')" by (cases y)
    have a: "R s s'" using 2(2) [of s v c] Inr y by simp
    have "R s' (state_of (remove_client_loop E reason (rev pushed @ removal_stack) s'))"
      using 2(1) [OF Inr y [symmetric]] 2(2) .
    then show ?thesis using tr [OF a] Inr y by simp
  qed
qed

lemma shrinks_remove_client_loop:
  "shrinks s (state_of (remove_client_loop E reason stack s))"
  using remove_client_loop_rel [of shrinks E reason] shrinks_refl shrinks_trans
    shrinks_remove_client_step
  by blast

lemma shrinks_remove_client: "shrinks s (state_of (remove_client E v e reason s))"
  unfolding remove_client_def by (rule shrinks_remove_client_loop)


section \<open>Purity of the inputs\<close>

fun raised :: "result \<Rightarrow> exn option" where
  "raised (Ok s) = None"
| "raised (Raise e s) = Some e"

lemma raised_None: "raised r = None \<Longrightarrow> r = Ok (state_of r)"
  by (cases r) simp_all

lemma and_then_rel:
  assumes "\<And>a b c. R a b \<Longrightarrow> R b c \<Longrightarrow> R a c"
    and "R s (state_of r)" and "\<And>t. R t (state_of (f t))"
  shows "R s (state_of (and_then r f))"
proof (cases r)
  case (Ok t)
  then have "R s t" using assms(2) by simp
  then have "R s (state_of (f t))" using assms(3) [of t] by (rule assms(1))
  then show ?thesis using Ok by simp
next
  case (Raise e t)
  then show ?thesis using assms(2) by simp
qed

text \<open>The public operations that change a graph, as values.\<close>

datatype operation =
    Op_import_var var reason bool
  | Op_import_node node bool reason bool
  | Op_change_input client nat var reason bool
  | Op_replace var var reason bool
  | Op_replace_all "(var \<times> var) list" reason bool
  | Op_remove_client var edge reason
  | Op_attach_feature fid
  | Op_remove_feature fid

fun perform :: "env \<Rightarrow> operation \<Rightarrow> fgraph \<Rightarrow> result" where
  "perform E (Op_import_var v reason import_missing) s = import_var E v reason import_missing s"
| "perform E (Op_import_node n check reason import_missing) s =
     import_node E n check reason import_missing s"
| "perform E (Op_change_input c i new_var reason import_missing) s =
     change_input E c i new_var reason import_missing s"
| "perform E (Op_replace v new_var reason import_missing) s =
     replace E v new_var reason import_missing s"
| "perform E (Op_replace_all pairs reason import_missing) s =
     replace_all E pairs reason import_missing s"
| "perform E (Op_remove_client v e reason) s = remove_client E v e reason s"
| "perform E (Op_attach_feature f) s = attach_feature E f s"
| "perform E (Op_remove_feature f) s = remove_feature E f s"

text \<open>
  The state after a sequence of operations; an operation that raises leaves
  the state it had reached, and the sequence goes on from it.
\<close>

definition after :: "env \<Rightarrow> operation list \<Rightarrow> fgraph \<Rightarrow> fgraph" where
  "after E ops s = fold (\<lambda>op s. state_of (perform E op s)) ops s"

definition inputs_pure :: "env \<Rightarrow> fgraph \<Rightarrow> bool" where
  "inputs_pure E s =
     ((\<forall>v \<in> set (inputs s). owner (var_obj E v) = None \<and> \<not> is_Constant (var_obj E v))
      \<and> distinct (inputs s))"

text \<open>The inputs of \<open>s'\<close> are those of \<open>s\<close> followed by new, promoted ones.\<close>

definition inputs_grow :: "env \<Rightarrow> fgraph \<Rightarrow> fgraph \<Rightarrow> bool" where
  "inputs_grow E s s' =
     (\<exists>ext. inputs s' = inputs s @ ext \<and> distinct ext \<and> set ext \<inter> set (inputs s) = {}
            \<and> (\<forall>u \<in> set ext. owner (var_obj E u) = None \<and> \<not> is_Constant (var_obj E u)))"

lemma inputs_grow_same: "inputs s' = inputs s \<Longrightarrow> inputs_grow E s s'"
  by (simp add: inputs_grow_def)

lemma inputs_grow_trans:
  assumes "inputs_grow E s s'" and "inputs_grow E s' s''"
  shows "inputs_grow E s s''"
proof -
  obtain e1 where e1: "inputs s' = inputs s @ e1" "distinct e1" "set e1 \<inter> set (inputs s) = {}"
    "\<forall>u \<in> set e1. owner (var_obj E u) = None \<and> \<not> is_Constant (var_obj E u)"
    using assms(1) by (auto simp: inputs_grow_def)
  obtain e2 where e2: "inputs s'' = inputs s' @ e2" "distinct e2" "set e2 \<inter> set (inputs s') = {}"
    "\<forall>u \<in> set e2. owner (var_obj E u) = None \<and> \<not> is_Constant (var_obj E u)"
    using assms(2) by (auto simp: inputs_grow_def)
  have "inputs s'' = inputs s @ (e1 @ e2)" using e1(1) e2(1) by simp
  moreover have "distinct (e1 @ e2)" using e1 e2 by auto
  moreover have "set (e1 @ e2) \<inter> set (inputs s) = {}" using e1 e2 by auto
  moreover have "\<forall>u \<in> set (e1 @ e2). owner (var_obj E u) = None \<and> \<not> is_Constant (var_obj E u)"
    using e1(4) e2(4) by auto
  ultimately show ?thesis unfolding inputs_grow_def by blast
qed

lemma inputs_grow_and_then:
  assumes "inputs_grow E s (state_of r)" and "\<And>t. inputs_grow E t (state_of (f t))"
  shows "inputs_grow E s (state_of (and_then r f))"
  using and_then_rel [of "inputs_grow E" s r f] inputs_grow_trans assms by blast

lemma inputs_grow_add_input:
  "missing_input E v s \<Longrightarrow> inputs_grow E s (add_input v True s)"
  unfolding inputs_grow_def
  by (rule exI [of _ "[v]"])
     (auto simp: missing_input_def add_input_def track_var_def setup_var_def Let_def
           split: option.splits)

lemma inputs_grow_check_inputs: "inputs_grow E s (state_of (check_inputs E im vs s))"
proof (induction vs arbitrary: s)
  case Nil
  show ?case by (simp add: inputs_grow_same)
next
  case (Cons v vs)
  show ?case
  proof (cases "missing_input E v s \<and> im")
    case True
    then show ?thesis
      using inputs_grow_trans [OF inputs_grow_add_input Cons [of "add_input v True s"]] by simp
  next
    case False
    then show ?thesis using Cons [of s] by (auto simp: inputs_grow_same)
  qed
qed

lemma inputs_grow_check_new_nodes: "inputs_grow E s (state_of (check_new_nodes E im ns s))"
proof (induction ns arbitrary: s)
  case Nil
  show ?case by (simp add: inputs_grow_same)
next
  case (Cons n ns)
  show ?case using inputs_grow_and_then [OF inputs_grow_check_inputs Cons] by simp
qed

lemma inputs_grow_import_node:
  "inputs_grow E s (state_of (import_node E a check reason im s))"
proof (cases "io_toposort E (nodes s) (variables s) (node_outputs (nodes s a))")
  case (Inl e)
  then show ?thesis by (simp add: import_node_def inputs_grow_same)
next
  case (Inr new_nodes)
  have a: "inputs_grow E s (state_of (if check then check_new_nodes E im new_nodes s else Ok s))"
    by (simp add: inputs_grow_check_new_nodes inputs_grow_same)
  have b: "\<And>t. inputs_grow E t (state_of (import_new_nodes E reason new_nodes t))"
    using grows_import_new_nodes by (simp add: grows_def inputs_grow_same)
  show ?thesis using Inr inputs_grow_and_then [OF a b] by (simp add: import_node_def)
qed

lemma inputs_grow_track_var: "inputs_grow E s (track_var v s)"
  using grows_track_var [of s v] by (simp add: grows_def inputs_grow_same)

lemma inputs_grow_import_var:
  "inputs_grow E s (state_of (import_var E v reason im s))"
proof -
  let ?r = "case owner (var_obj E v) of
          Some n \<Rightarrow>
            if n |\<notin>| apply_nodes s then import_node E n True reason im s else Ok s
        | None \<Rightarrow>
            if \<not> is_Constant (var_obj E v) \<and> v \<notin> set (inputs s)
            then (if vtype (var_obj E v) = NullType then Raise TypeError s
                  else if im then Ok (add_input v True s)
                  else Raise MissingInputError s)
            else Ok s"
  have "inputs_grow E s (state_of ?r)"
  proof (cases "owner (var_obj E v)")
    case None
    then show ?thesis
      using inputs_grow_add_input [of E v s]
      by (auto simp: inputs_grow_same missing_input_def)
  next
    case (Some n)
    then show ?thesis using inputs_grow_import_node [of E s n True reason im]
      by (simp add: inputs_grow_same)
  qed
  then show ?thesis
    unfolding import_var_def
    by (rule inputs_grow_and_then) (simp add: inputs_grow_track_var)
qed

lemma inputs_grow_change_input_rest:
  "inputs_grow E s (state_of (change_input_rest E c i r new_var reason im s))"
proof (cases "r = new_var")
  case True
  then show ?thesis by (simp add: change_input_rest_def inputs_grow_same)
next
  case False
  have a: "\<And>t. inputs_grow E t (state_of (add_client new_var (c, i) t))"
    using grows_add_client by (simp add: grows_def inputs_grow_same)
  have b: "\<And>t. inputs_grow E t (state_of (remove_client E r (c, i) reason t))"
    using shrinks_remove_client by (simp add: shrinks_def inputs_grow_same)
  have c: "\<And>t. inputs_grow E t (state_of (execute_callbacks E (CB_change_input c i r new_var reason) t))"
    using shrinks_execute_callbacks by (simp add: shrinks_def inputs_grow_same)
  show ?thesis using False
    unfolding change_input_rest_def
    by (simp only: if_False) (intro inputs_grow_and_then inputs_grow_import_var a b c)
qed

lemma inputs_grow_change_input:
  "inputs_grow E s (state_of (change_input E c i new_var reason im s))"
proof -
  have "\<And>t r. inputs t = inputs s \<Longrightarrow>
      inputs_grow E s (state_of (change_input_rest E c i r new_var reason im t))"
    using inputs_grow_trans [OF inputs_grow_same inputs_grow_change_input_rest] by blast
  then show ?thesis
    by (cases c) (auto simp: change_input_def Let_def inputs_grow_same)
qed

lemma inputs_grow_replace_loop:
  "inputs_grow E s (state_of (replace_loop E v new_var reason im cl s))"
proof (induction cl arbitrary: s)
  case Nil
  show ?case by (simp add: inputs_grow_same)
next
  case (Cons e cl)
  obtain c i where e: "e = (c, i)" by (cases e)
  show ?case
  proof (cases "replace_assert v (c, i) s")
    case None
    then show ?thesis
      using inputs_grow_and_then [OF inputs_grow_change_input Cons] e by simp
  next
    case (Some x)
    then show ?thesis using e by (simp add: inputs_grow_same)
  qed
qed

lemma inputs_grow_replace:
  "inputs_grow E s (state_of (replace E v new_var reason im s))"
  by (auto simp: replace_def inputs_grow_same inputs_grow_replace_loop
           split: sum.splits option.splits)

lemma inputs_grow_replace_all:
  "inputs_grow E s (state_of (replace_all E pairs reason im s))"
proof (induction pairs arbitrary: s)
  case Nil
  show ?case by (simp add: inputs_grow_same)
next
  case (Cons p pairs)
  obtain v new_var where p: "p = (v, new_var)" by (cases p)
  show ?case using inputs_grow_and_then [OF inputs_grow_replace Cons] p by simp
qed

lemma inputs_grow_attach_feature: "inputs_grow E s (state_of (attach_feature E f s))"
  by (auto simp: attach_feature_def attached_def Let_def inputs_grow_same split: option.splits)

lemma inputs_grow_remove_feature: "inputs_grow E s (state_of (remove_feature E f s))"
  by (auto simp: remove_feature_def Let_def inputs_grow_same split: option.splits)

lemma inputs_grow_perform: "inputs_grow E s (state_of (perform E op s))"
proof (cases op)
  case (Op_remove_client v e reason)
  then show ?thesis using shrinks_remove_client [of s E v e reason]
    by (simp add: shrinks_def inputs_grow_same)
qed (simp_all add: inputs_grow_import_var inputs_grow_import_node inputs_grow_change_input
       inputs_grow_replace inputs_grow_replace_all inputs_grow_attach_feature
       inputs_grow_remove_feature)

lemma inputs_grow_after: "inputs_grow E s (after E ops s)"
  unfolding after_def
proof (induction ops arbitrary: s)
  case Nil
  show ?case by (simp add: inputs_grow_same)
next
  case (Cons op ops)
  show ?case using inputs_grow_trans [OF inputs_grow_perform Cons] by simp
qed


lemma and_then_Ok: "and_then r f = Ok s' \<Longrightarrow> \<exists>t. r = Ok t \<and> f t = Ok s'"
  by (cases r) simp_all

lemma raised_and_then:
  "raised (and_then r f) = (case raised r of None \<Rightarrow> raised (f (state_of r)) | Some e \<Rightarrow> Some e)"
  by (cases r) simp_all

lemma attach_features_inputs: "inputs (state_of (attach_features E fs s)) = inputs s"
proof (induction fs arbitrary: s)
  case Nil
  show ?case by simp
next
  case (Cons f fs)
  have a: "inputs (state_of (attach_feature E f s)) = inputs s"
    by (auto simp: attach_feature_def attached_def Let_def split: option.splits)
  show ?case
    using and_then_rel [of "\<lambda>s s'. inputs s' = inputs s" s "attach_feature E f s"
        "attach_features E fs"] a Cons
    by simp
qed

lemma add_inputs_Ok:
  "add_inputs E ins s = Ok s' \<Longrightarrow>
   inputs s' = inputs s @ ins \<and> (\<forall>v \<in> set ins. owner (var_obj E v) = None)"
proof (induction ins arbitrary: s)
  case Nil
  then show ?case by simp
next
  case (Cons v ins)
  then have o: "owner (var_obj E v) = None" by (auto split: if_splits)
  then have "add_inputs E ins (add_input v False s) = Ok s'" using Cons.prems by simp
  then have "inputs s' = inputs (add_input v False s) @ ins
             \<and> (\<forall>v \<in> set ins. owner (var_obj E v) = None)"
    by (rule Cons.IH)
  moreover have "inputs (add_input v False s) = inputs s @ [v]"
    by (auto simp: add_input_def track_var_def setup_var_def Let_def split: option.splits)
  ultimately show ?case using o by simp
qed

lemma add_inputs_owned:
  "\<exists>v \<in> set ins. owner (var_obj E v) \<noteq> None \<Longrightarrow> raised (add_inputs E ins s) = Some ValueError"
  by (induction ins arbitrary: s) auto

lemma inputs_grow_import_outputs: "inputs_grow E s (state_of (import_outputs E outs s))"
proof (induction outs arbitrary: s)
  case Nil
  show ?case by (simp add: inputs_grow_same)
next
  case (Cons v outs)
  show ?case using inputs_grow_and_then [OF inputs_grow_import_var Cons] by simp
qed

lemma add_output_clients_inputs: "inputs (state_of (add_output_clients i outs s)) = inputs s"
proof (induction outs arbitrary: s i)
  case Nil
  show ?case by simp
next
  case (Cons v outs)
  have a: "inputs (state_of (add_client v (Output, i) s)) = inputs s"
    using grows_add_client [of s v "(Output, i)"] by (simp add: grows_def)
  show ?case
    using and_then_rel [of "\<lambda>s s'. inputs s' = inputs s" s "add_client v (Output, i) s"
        "add_output_clients (Suc i) outs"] a Cons
    by simp
qed

lemma FunctionGraph_init_inputs:
  assumes "init_args E N inputs0 outs0 clone = (N1, ins, outs)"
    and "FunctionGraph_init E N inputs0 (Some outs0) features0 clone = Ok s0"
  shows "\<exists>t. inputs t = ins \<and> inputs_grow E t s0 \<and> (\<forall>v \<in> set ins. owner (var_obj E v) = None)"
proof -
  let ?fs = "case features0 of None \<Rightarrow> [] | Some fs \<Rightarrow> fs"
  obtain s1 where s1: "attach_features E ?fs (empty_fgraph N1 outs) = Ok s1"
    and r1: "and_then (attach_feature E (ReplaceValidate E) s1) (\<lambda>s.
             and_then (add_inputs E ins s) (\<lambda>s.
             and_then (import_outputs E outs s) (add_output_clients 0 outs))) = Ok s0"
    using assms by (auto simp: FunctionGraph_init_def dest!: and_then_Ok)
  obtain s2 where s2: "attach_feature E (ReplaceValidate E) s1 = Ok s2"
    and r2: "and_then (add_inputs E ins s2) (\<lambda>s.
             and_then (import_outputs E outs s) (add_output_clients 0 outs)) = Ok s0"
    using r1 by (auto dest!: and_then_Ok)
  obtain s3 where s3: "add_inputs E ins s2 = Ok s3"
    and r3: "and_then (import_outputs E outs s3) (add_output_clients 0 outs) = Ok s0"
    using r2 by (auto dest!: and_then_Ok)
  obtain s4 where s4: "import_outputs E outs s3 = Ok s4"
    and r4: "add_output_clients 0 outs s4 = Ok s0"
    using r3 by (auto dest!: and_then_Ok)
  have "inputs s1 = []"
    using attach_features_inputs [of E ?fs "empty_fgraph N1 outs"] s1
    by (simp add: empty_fgraph_def)
  then have "inputs s2 = []"
    using s2 by (auto simp: attach_feature_def attached_def Let_def split: option.splits if_splits)
  then have i3: "inputs s3 = ins" "\<forall>v \<in> set ins. owner (var_obj E v) = None"
    using add_inputs_Ok [OF s3] by simp_all
  have "inputs_grow E s3 s4" using inputs_grow_import_outputs [of E s3 outs] s4 by simp
  moreover have "inputs s0 = inputs s4" using add_output_clients_inputs [of 0 outs s4] r4 by simp
  ultimately have "inputs_grow E s3 s0"
    using inputs_grow_trans inputs_grow_same by blast
  then show ?thesis using i3 by blast
qed

lemma inputs_grow_ownerless:
  "inputs_grow E s s' \<Longrightarrow> \<forall>v \<in> set (inputs s). owner (var_obj E v) = None \<Longrightarrow>
   \<forall>v \<in> set (inputs s'). owner (var_obj E v) = None"
  by (auto simp: inputs_grow_def)

lemma inputs_grow_pure: "inputs_grow E s s' \<Longrightarrow> inputs_pure E s \<Longrightarrow> inputs_pure E s'"
  by (auto simp: inputs_grow_def inputs_pure_def)

text \<open>
  C4 (amended).  Input purity: in every graph that the constructor returns,
  and after every sequence of the operations \<^verbatim>\<open>import_var\<close>, \<^verbatim>\<open>import_node\<close>,
  \<^verbatim>\<open>change_input\<close>, \<^verbatim>\<open>replace\<close>, \<^verbatim>\<open>replace_all\<close>, \<^verbatim>\<open>remove_client\<close>,
  \<^verbatim>\<open>attach_feature\<close> and \<^verbatim>\<open>remove_feature\<close> (whether they return or raise), every
  element of \<open>inputs\<close> has no owner; when the inputs the constructor works on
  (after the defaults and the cloning) are pairwise distinct and none is a
  Constant, the elements of \<open>inputs\<close> are moreover not Constants and pairwise
  distinct.  When one of those inputs has an owner the constructor does not
  return normally, and it raises \<^verbatim>\<open>ValueError\<close> once the features are attached.
\<close>

theorem input_purity:
  assumes "init_args E N inputs0 outs0 clone = (N1, ins, outs)"
  shows "(FunctionGraph_init E N inputs0 (Some outs0) features0 clone = Ok s0 \<longrightarrow>
            (\<forall>v \<in> set (inputs (after E ops s0)). owner (var_obj E v) = None)
            \<and> (distinct ins \<and> (\<forall>v \<in> set ins. \<not> is_Constant (var_obj E v)) \<longrightarrow>
                 inputs_pure E (after E ops s0)))
         \<and> ((\<exists>v \<in> set ins. owner (var_obj E v) \<noteq> None) \<longrightarrow>
              raised (FunctionGraph_init E N inputs0 (Some outs0) features0 clone) \<noteq> None
              \<and> (raised (and_then
                           (attach_features E (case features0 of None \<Rightarrow> [] | Some fs \<Rightarrow> fs)
                              (empty_fgraph N1 outs))
                           (attach_feature E (ReplaceValidate E))) = None \<longrightarrow>
                   raised (FunctionGraph_init E N inputs0 (Some outs0) features0 clone)
                     = Some ValueError))"
proof (intro conjI impI)
  assume ok: "FunctionGraph_init E N inputs0 (Some outs0) features0 clone = Ok s0"
  obtain t where t: "inputs t = ins" "inputs_grow E t s0"
    "\<forall>v \<in> set ins. owner (var_obj E v) = None"
    using FunctionGraph_init_inputs [OF assms ok] by blast
  have g: "inputs_grow E t (after E ops s0)"
    using inputs_grow_trans [OF t(2) inputs_grow_after] .
  show "\<forall>v \<in> set (inputs (after E ops s0)). owner (var_obj E v) = None"
    using inputs_grow_ownerless [OF g] t by simp
  assume "distinct ins \<and> (\<forall>v \<in> set ins. \<not> is_Constant (var_obj E v))"
  then have "inputs_pure E t" using t by (simp add: inputs_pure_def)
  then show "inputs_pure E (after E ops s0)" using inputs_grow_pure [OF g] by simp
next
  assume ow: "\<exists>v \<in> set ins. owner (var_obj E v) \<noteq> None"
  show "raised (FunctionGraph_init E N inputs0 (Some outs0) features0 clone) \<noteq> None"
    using assms add_inputs_owned [OF ow]
    by (auto simp: FunctionGraph_init_def raised_and_then split: option.splits)
  assume "raised (and_then
                   (attach_features E (case features0 of None \<Rightarrow> [] | Some fs \<Rightarrow> fs)
                      (empty_fgraph N1 outs))
                   (attach_feature E (ReplaceValidate E))) = None"
  then show "raised (FunctionGraph_init E N inputs0 (Some outs0) features0 clone) = Some ValueError"
    using assms add_inputs_owned [OF ow]
    by (auto simp: FunctionGraph_init_def raised_and_then split: option.splits)
qed

text \<open>The graph that the constructor builds for inputs \<open>[x, y]\<close> and outputs \<open>[b]\<close>.\<close>

definition ex_built :: fgraph where
  "ex_built = state_of (FunctionGraph_init ex_env ex_nodes (Some [0, 1]) (Some [3]) None False)"

lemma ex_built_Ok:
  "FunctionGraph_init ex_env ex_nodes (Some [0, 1]) (Some [3]) None False = Ok ex_built"
proof -
  have "raised (FunctionGraph_init ex_env ex_nodes (Some [0, 1]) (Some [3]) None False) = None"
    by (simp add: FunctionGraph_init_def init_args_def empty_fgraph_def attach_feature_def
        attached_def add_input_def track_var_def setup_var_def import_var_def import_node_def
        setup_node_def bad_map_def add_client_def execute_callbacks_def missing_input_def
        ex_env_def ex_var_def ex_nodes_def ex_feature_def)
  then show ?thesis unfolding ex_built_def by (rule raised_None)
qed

theorem input_purity_witness:
  "init_args ex_env ex_nodes (Some [0, 1]) [3] False = (ex_nodes, [0, 1], [3])
   \<and> FunctionGraph_init ex_env ex_nodes (Some [0, 1]) (Some [3]) None False = Ok ex_built
   \<and> distinct [0, 1 :: var]
   \<and> \<not> is_Constant (var_obj ex_env 0) \<and> \<not> is_Constant (var_obj ex_env 1)
   \<and> inputs_pure ex_env
       (after ex_env [Op_replace 2 1 None False, Op_import_var 5 None True] ex_built)
   \<and> init_args ex_env ex_nodes (Some [2, 0]) [3] False = (ex_nodes, [2, 0], [3])
   \<and> owner (var_obj ex_env 2) \<noteq> None
   \<and> raised (FunctionGraph_init ex_env ex_nodes (Some [2, 0]) (Some [3]) None False)
       = Some ValueError"
proof -
  have a: "init_args ex_env ex_nodes (Some [0, 1]) [3] False = (ex_nodes, [0, 1], [3])"
    and b: "init_args ex_env ex_nodes (Some [2, 0]) [3] False = (ex_nodes, [2, 0], [3])"
    by (simp_all add: init_args_def)
  have c: "distinct [0, 1 :: var]" by simp
  have d: "\<not> is_Constant (var_obj ex_env 0)" "\<not> is_Constant (var_obj ex_env 1)"
    "owner (var_obj ex_env 2) \<noteq> None"
    by (simp_all add: ex_env_def ex_var_def)
  have e: "raised (and_then (attach_features ex_env (case None of None \<Rightarrow> [] | Some fs \<Rightarrow> fs)
                              (empty_fgraph ex_nodes [3]))
                     (attach_feature ex_env (ReplaceValidate ex_env))) = None"
    by (simp add: attach_feature_def attached_def empty_fgraph_def ex_env_def ex_feature_def)
  have f: "inputs_pure ex_env
       (after ex_env [Op_replace 2 1 None False, Op_import_var 5 None True] ex_built)"
    using input_purity [OF a, of None ex_built] ex_built_Ok c d by simp
  have g: "raised (FunctionGraph_init ex_env ex_nodes (Some [2, 0]) (Some [3]) None False)
       = Some ValueError"
    using input_purity [OF b, of None] d e by simp
  from a ex_built_Ok c d(1,2) f b d(3) g show ?thesis by blast
qed

theorem input_purity_counterexample:
  "raised (FunctionGraph_init ex_env ex_nodes (Some [0, 0]) (Some [0]) None False) = None
   \<and> inputs (state_of (FunctionGraph_init ex_env ex_nodes (Some [0, 0]) (Some [0]) None False))
       = [0, 0]
   \<and> \<not> distinct [0, 0 :: var]
   \<and> raised (FunctionGraph_init ex_env ex_nodes (Some [7]) (Some [7]) None False) = None
   \<and> inputs (state_of (FunctionGraph_init ex_env ex_nodes (Some [7]) (Some [7]) None False))
       = [7]
   \<and> is_Constant (var_obj ex_env 7)"
  by (simp add: FunctionGraph_init_def init_args_def empty_fgraph_def attach_feature_def
        attached_def add_input_def track_var_def setup_var_def import_var_def import_node_def
        setup_node_def bad_map_def add_client_def execute_callbacks_def missing_input_def
        ex_env_def ex_var_def ex_nodes_def ex_feature_def)

section \<open>Back edges\<close>

















text \<open>Composition of relations that hold for the normal returns.\<close>

lemma and_then_Ok_rel:
  assumes "and_then r f = Ok s''"
    and "\<And>a b c. R a b \<Longrightarrow> R b c \<Longrightarrow> R a c"
    and "\<And>t. r = Ok t \<Longrightarrow> R s t"
    and "\<And>t. f t = Ok s'' \<Longrightarrow> R t s''"
  shows "R s s''"
proof -
  obtain t where t: "r = Ok t" "f t = Ok s''" using assms(1) and_then_Ok by blast
  show ?thesis using assms(2) [OF assms(3) [OF t(1)] assms(4) [OF t(2)]] .
qed


















































































section \<open>The example graph, built and rewritten\<close>








section \<open>Pruning on disconnect\<close>











































section \<open>Counting the calls of on_prune\<close>













































end
